theory Spec2Isabelle
  imports Main "HOL-Library.Word"
begin

section \<open>Data model of the memory controller\<close>

text \<open>
  The controller is \<^verbatim>\<open>DRAMSim2/MemoryController.cpp\<close>. Its integers are the
  C++ ones: \<^verbatim>\<open>unsigned\<close> is a 32-bit word, \<^verbatim>\<open>uint64_t\<close> a 64-bit word,
  and an \<^verbatim>\<open>unsigned\<close> operand added to a \<^verbatim>\<open>uint64_t\<close> is zero-extended
  first (\<open>ucast\<close>). Sizes and indices of vectors are natural numbers.
\<close>

type_synonym u32 = "32 word"
type_synonym u64 = "64 word"

datatype BusPacketType =
  READ | READ_P | WRITE | WRITE_P | ACTIVATE | PRECHARGE | REFRESH | DATA

datatype CurrentBankState = Idle | RowActive | Precharging | Refreshing | PowerDown

datatype TransactionType = DATA_READ | DATA_WRITE | RETURN_DATA

record BankState =
  currentBankState :: CurrentBankState
  openRowAddress :: u32
  nextRead :: u64
  nextWrite :: u64
  nextActivate :: u64
  nextPrecharge :: u64
  nextPowerUp :: u64
  lastCommand :: BusPacketType
  stateChangeCountdown :: u32

record BusPacket =
  busPacketType :: BusPacketType
  physicalAddress :: u64
  column :: u32
  row :: u32
  rank :: nat
  bank :: nat
  data :: nat

record Transaction =
  transactionType :: TransactionType
  address :: u64
  trans_data :: nat
  timeAdded :: u64
  timeACTIssued :: u64

text \<open>
  The globals the controller reads. The \<^verbatim>\<open>IDD\<close> currents and
  \<^verbatim>\<open>isSmartMRAM\<close> are declared in the controller's file; the timing
  constants, the derived delays (\<^verbatim>\<open>READ_TO_PRE_DELAY\<close> and its siblings),
  \<^verbatim>\<open>WL\<close>, \<^verbatim>\<open>HISTOGRAM_BIN_SIZE\<close> and the policy flags are declared in
  a header outside the controller's file and are taken as parameters, of type
  \<^verbatim>\<open>unsigned\<close>. \<open>REFRESH_PERIOD_cycles\<close> is the value that
  \<^verbatim>\<open>REFRESH_PERIOD/tCK\<close> (a floating-point quotient) has once it is stored
  into the \<^verbatim>\<open>unsigned\<close> refresh countdown, and \<open>REFRESH_STAGGER\<close> the value of
  \<^verbatim>\<open>(int)((REFRESH_PERIOD/tCK)/NUM_RANKS)\<close> in the constructor.
\<close>

record Config =
  NUM_RANKS :: nat
  NUM_BANKS :: nat
  NUM_DEVICES :: u32
  TRANS_QUEUE_DEPTH :: nat
  IDD0 :: u32
  IDD2P :: u32
  IDD2N :: u32
  IDD3N :: u32
  IDD4W :: u32
  IDD4R :: u32
  IDD5 :: u32
  tRC :: u32
  tRAS :: u32
  tRCD :: u32
  tRP :: u32
  tRRD :: u32
  tRFC :: u32
  tCCD :: u32
  tRTRS :: u32
  tCMD :: u32
  tXP :: u32
  tCKE :: u32
  AL :: u32
  BL :: u32
  WL :: u32
  READ_TO_PRE_DELAY :: u32
  WRITE_TO_PRE_DELAY :: u32
  READ_AUTOPRE_DELAY :: u32
  WRITE_AUTOPRE_DELAY :: u32
  READ_TO_WRITE_DELAY :: u32
  WRITE_TO_READ_DELAY_B :: u32
  WRITE_TO_READ_DELAY_R :: u32
  REFRESH_PERIOD_cycles :: u32
  REFRESH_STAGGER :: u32
  HISTOGRAM_BIN_SIZE :: u32
  isSmartMRAM :: bool
  USE_LOW_POWER :: bool

text \<open>
  What the controller does to its collaborators (the command queue, the ranks and the
  callbacks registered by the CPU model) is recorded, in order, as a list of events.
\<close>

datatype event =
    NeedRefresh nat
  | RankReceiveFromBus nat BusPacket
  | WriteDataDone u64 u64
  | ReturnReadData u64 u64
  | Enqueue BusPacket
  | RankPowerDown nat
  | RankPowerUp nat
  | CommandQueueStep
  | ResetRowBufferStats

datatype error =
    DataBusCollision
  | CommandBusCollision
  | PoppedBadCommand BusPacketType
  | NoMatchingTransaction u64
  | NonDataPacketFromRank
  | WriteDataFifoMismatch

text \<open>
  The controller's members. \<open>refreshWaiting\<close> is not one of them: it is the flag
  \<^verbatim>\<open>(*ranks)[i]->refreshWaiting\<close> of each rank object, which the controller reads
  and writes; it is kept here as a function of the rank index.
\<close>

record MemoryController =
  bankStates :: "BankState list list"
  outgoingCmdPacket :: "BusPacket option"
  cmdCyclesLeft :: u32
  outgoingDataPacket :: "BusPacket option"
  dataCyclesLeft :: u32
  currentClockCycle :: u64
  transactionQueue :: "Transaction list"
  pendingReadTransactions :: "Transaction list"
  returnTransaction :: "Transaction list"
  writeDataToSend :: "BusPacket list"
  writeDataCountdown :: "u32 list"
  refreshCountdown :: "u32 list"
  refreshRank :: nat
  powerDown :: "bool list"
  refreshWaiting :: "nat \<Rightarrow> bool"
  backgroundEnergy :: "u64 list"
  burstEnergy :: "u64 list"
  actpreEnergy :: "u64 list"
  refreshEnergy :: "u64 list"
  totalTransactions :: u64
  grandTotalBankAccesses :: "u64 list"
  totalReadsPerBank :: "u64 list"
  totalWritesPerBank :: "u64 list"
  totalReadsPerRank :: "u64 list"
  totalWritesPerRank :: "u64 list"
  totalEpochLatency :: "u64 list"
  latencies :: "u32 \<rightharpoonup> u32"
  accessLatencies :: "u32 \<rightharpoonup> u32"
  events :: "event list"

section \<open>Helpers for the vectors\<close>

text \<open>A loop over all indices of a vector that rewrites each element in place.\<close>

definition mapi :: "(nat \<Rightarrow> 'a \<Rightarrow> 'a) \<Rightarrow> 'a list \<Rightarrow> 'a list" where
  "mapi f xs = map (\<lambda>(i, x). f i x) (enumerate 0 xs)"

text \<open>\<^verbatim>\<open>bankStates[r][b]\<close> rewritten by \<open>f\<close>.\<close>

definition updBank ::
  "nat \<Rightarrow> nat \<Rightarrow> (BankState \<Rightarrow> BankState) \<Rightarrow> BankState list list \<Rightarrow> BankState list list" where
  "updBank r b f bs = bs[r := (bs ! r)[b := f (bs ! r ! b)]]"

text \<open>\<^verbatim>\<open>v[i] += d\<close> on a vector of 64-bit counters.\<close>

definition addAt :: "nat \<Rightarrow> u64 \<Rightarrow> u64 list \<Rightarrow> u64 list" where
  "addAt i d v = v[i := v ! i + d]"

text \<open>\<^verbatim>\<open>SEQUENTIAL(rank,bank)\<close>.\<close>

definition SEQUENTIAL :: "Config \<Rightarrow> nat \<Rightarrow> nat \<Rightarrow> nat" where
  "SEQUENTIAL cfg r b = r * NUM_BANKS cfg + b"

section \<open>Bank-state countdowns (first loop of update)\<close>

definition bankCountdown :: "Config \<Rightarrow> BankState \<Rightarrow> BankState" where
  "bankCountdown cfg b =
     (if stateChangeCountdown b > 0 then
        (let b1 = b\<lparr>stateChangeCountdown := stateChangeCountdown b - 1\<rparr> in
         if stateChangeCountdown b1 = 0 then
           (case lastCommand b1 of
              WRITE_P \<Rightarrow>
                (if isSmartMRAM cfg
                 then b1\<lparr>currentBankState := Idle, lastCommand := PRECHARGE,
                         stateChangeCountdown := 0\<rparr>
                 else b1\<lparr>currentBankState := Precharging, lastCommand := PRECHARGE,
                         stateChangeCountdown := tRP cfg\<rparr>)
            | READ_P \<Rightarrow>
                (if isSmartMRAM cfg
                 then b1\<lparr>currentBankState := Idle, lastCommand := PRECHARGE,
                         stateChangeCountdown := 0\<rparr>
                 else b1\<lparr>currentBankState := Precharging, lastCommand := PRECHARGE,
                         stateChangeCountdown := tRP cfg\<rparr>)
            | REFRESH \<Rightarrow> b1\<lparr>currentBankState := Idle\<rparr>
            | PRECHARGE \<Rightarrow> b1\<lparr>currentBankState := Idle\<rparr>
            | _ \<Rightarrow> b1)
         else b1)
      else b)"

definition updateBankStates :: "Config \<Rightarrow> MemoryController \<Rightarrow> MemoryController" where
  "updateBankStates cfg s = s\<lparr>bankStates := map (map (bankCountdown cfg)) (bankStates s)\<rparr>"

section \<open>Issuing the popped command\<close>

text \<open>
  The energy credited for one activation, in the 32-bit arithmetic of the source:
  \<^verbatim>\<open>((IDD0 * tRC) - ((IDD3N * tRAS) + (IDD2N * (tRC - tRAS)))) * NUM_DEVICES\<close>.
\<close>

definition activationEnergy :: "Config \<Rightarrow> u32" where
  "activationEnergy cfg =
     ((IDD0 cfg * tRC cfg) - ((IDD3N cfg * tRAS cfg) + (IDD2N cfg * (tRC cfg - tRAS cfg))))
       * NUM_DEVICES cfg"

text \<open>
  The two loops that stamp \<^verbatim>\<open>timeACTIssued\<close> on the first matching pending read:
  a READ stamps the first entry with that address that is still unstamped, an ACTIVATE
  the first entry with that address.
\<close>

fun stampOnRead :: "u64 \<Rightarrow> u64 \<Rightarrow> Transaction list \<Rightarrow> Transaction list" where
  "stampOnRead a now [] = []"
| "stampOnRead a now (t # ts) =
     (if address t = a \<and> timeACTIssued t = 0 then t\<lparr>timeACTIssued := now\<rparr> # ts
      else t # stampOnRead a now ts)"

fun stampOnActivate :: "u64 \<Rightarrow> u64 \<Rightarrow> Transaction list \<Rightarrow> Transaction list" where
  "stampOnActivate a now [] = []"
| "stampOnActivate a now (t # ts) =
     (if address t = a then t\<lparr>timeACTIssued := now\<rparr> # ts
      else t # stampOnActivate a now ts)"

text \<open>The double loop over every rank \<open>i\<close> and bank \<open>j\<close>.\<close>

definition forAllBanks ::
  "(nat \<Rightarrow> nat \<Rightarrow> BankState \<Rightarrow> BankState) \<Rightarrow> BankState list list \<Rightarrow> BankState list list" where
  "forAllBanks f bs = mapi (\<lambda>i. mapi (f i)) bs"

definition readTiming :: "Config \<Rightarrow> u64 \<Rightarrow> BusPacket \<Rightarrow> nat \<Rightarrow> nat \<Rightarrow> BankState \<Rightarrow> BankState" where
  "readTiming cfg now p i j b =
     (if i \<noteq> rank p then
        (if currentBankState b = RowActive
         then b\<lparr>nextRead := max (now + ucast (BL cfg div 2) + ucast (tRTRS cfg)) (nextRead b),
                nextWrite := max (now + ucast (READ_TO_WRITE_DELAY cfg)) (nextWrite b)\<rparr>
         else b)
      else b\<lparr>nextRead := max (now + ucast (max (tCCD cfg) (BL cfg div 2))) (nextRead b),
              nextWrite := max (now + ucast (READ_TO_WRITE_DELAY cfg)) (nextWrite b)\<rparr>)"

definition writeTiming :: "Config \<Rightarrow> u64 \<Rightarrow> BusPacket \<Rightarrow> nat \<Rightarrow> nat \<Rightarrow> BankState \<Rightarrow> BankState" where
  "writeTiming cfg now p i j b =
     (if i \<noteq> rank p then
        (if currentBankState b = RowActive
         then b\<lparr>nextWrite := max (now + ucast (BL cfg div 2) + ucast (tRTRS cfg)) (nextWrite b),
                nextRead := max (now + ucast (WRITE_TO_READ_DELAY_R cfg)) (nextRead b)\<rparr>
         else b)
      else b\<lparr>nextWrite := max (now + ucast (max (BL cfg div 2) (tCCD cfg))) (nextWrite b),
              nextRead := max (now + ucast (WRITE_TO_READ_DELAY_B cfg)) (nextRead b)\<rparr>)"

text \<open>\<^verbatim>\<open>case READ_P: case READ:\<close>\<close>

definition issueRead :: "Config \<Rightarrow> BusPacket \<Rightarrow> MemoryController \<Rightarrow> MemoryController" where
  "issueRead cfg p s =
     (let now = currentClockCycle s; r = rank p; k = bank p;
          pend = stampOnRead (physicalAddress p) now (pendingReadTransactions s);
          act = (if isSmartMRAM cfg \<and> lastCommand (bankStates s ! r ! k) = ACTIVATE
                 then addAt r (ucast (activationEnergy cfg)) (actpreEnergy s)
                 else actpreEnergy s);
          burst = addAt r (ucast ((((IDD4R cfg - IDD3N cfg) * BL cfg) div 2) * NUM_DEVICES cfg))
                    (burstEnergy s);
          bs1 = (if busPacketType p = READ_P
                 then updBank r k (\<lambda>b. b\<lparr>
                        nextActivate := max (now + ucast (READ_AUTOPRE_DELAY cfg)) (nextActivate b),
                        lastCommand := READ_P,
                        stateChangeCountdown := READ_TO_PRE_DELAY cfg\<rparr>) (bankStates s)
                 else updBank r k (\<lambda>b. b\<lparr>
                        nextPrecharge := max (now + ucast (READ_TO_PRE_DELAY cfg)) (nextPrecharge b),
                        lastCommand := READ\<rparr>) (bankStates s));
          bs2 = forAllBanks (readTiming cfg now p) bs1;
          bs3 = (if busPacketType p = READ_P
                 then updBank r k (\<lambda>b. b\<lparr>nextRead := nextActivate b,
                                           nextWrite := nextActivate b\<rparr>) bs2
                 else bs2)
      in s\<lparr>pendingReadTransactions := pend, actpreEnergy := act, burstEnergy := burst,
           bankStates := bs3\<rparr>)"

text \<open>\<^verbatim>\<open>case WRITE_P: case WRITE:\<close>\<close>

definition issueWrite :: "Config \<Rightarrow> BusPacket \<Rightarrow> MemoryController \<Rightarrow> MemoryController" where
  "issueWrite cfg p s =
     (let now = currentClockCycle s; r = rank p; k = bank p;
          bs1 = (if busPacketType p = WRITE_P
                 then updBank r k (\<lambda>b. b\<lparr>
                        nextActivate := max (now + ucast (WRITE_AUTOPRE_DELAY cfg)) (nextActivate b),
                        lastCommand := WRITE_P,
                        stateChangeCountdown := WRITE_TO_PRE_DELAY cfg\<rparr>) (bankStates s)
                 else updBank r k (\<lambda>b. b\<lparr>
                        nextPrecharge := max (now + ucast (WRITE_TO_PRE_DELAY cfg)) (nextPrecharge b),
                        lastCommand := WRITE\<rparr>) (bankStates s));
          burst = addAt r (ucast ((((IDD4W cfg - IDD3N cfg) * BL cfg) div 2) * NUM_DEVICES cfg))
                    (burstEnergy s);
          bs2 = forAllBanks (writeTiming cfg now p) bs1;
          bs3 = (if busPacketType p = WRITE_P
                 then updBank r k (\<lambda>b. b\<lparr>nextRead := nextActivate b,
                                           nextWrite := nextActivate b\<rparr>) bs2
                 else bs2)
      in s\<lparr>burstEnergy := burst, bankStates := bs3\<rparr>)"

text \<open>\<^verbatim>\<open>case ACTIVATE:\<close>\<close>

definition issueActivate :: "Config \<Rightarrow> BusPacket \<Rightarrow> MemoryController \<Rightarrow> MemoryController" where
  "issueActivate cfg p s =
     (let now = currentClockCycle s; r = rank p; k = bank p;
          pend = stampOnActivate (physicalAddress p) now (pendingReadTransactions s);
          act = (if \<not> isSmartMRAM cfg
                 then addAt r (ucast (activationEnergy cfg)) (actpreEnergy s)
                 else actpreEnergy s);
          bs1 = updBank r k (\<lambda>b. b\<lparr>currentBankState := RowActive, lastCommand := ACTIVATE,
                                    openRowAddress := row p\<rparr>) (bankStates s);
          bs2 = (if isSmartMRAM cfg
                 then updBank r k (\<lambda>b. b\<lparr>
                        nextActivate := max (now + ucast (tRRD cfg)) (nextActivate b),
                        nextPrecharge := now,
                        nextRead := max now (nextRead b),
                        nextWrite := max now (nextWrite b)\<rparr>) bs1
                 else updBank r k (\<lambda>b. b\<lparr>
                        nextActivate := max (now + ucast (tRC cfg)) (nextActivate b),
                        nextPrecharge := max (now + ucast (tRAS cfg)) (nextPrecharge b),
                        nextRead := max (now + ucast (tRCD cfg - AL cfg)) (nextRead b),
                        nextWrite := max (now + ucast (tRCD cfg - AL cfg)) (nextWrite b)\<rparr>) bs1);
          bs3 = bs2[r := mapi (\<lambda>i b. if i \<noteq> k
                                      then b\<lparr>nextActivate :=
                                                max (now + ucast (tRRD cfg)) (nextActivate b)\<rparr>
                                      else b) (bs2 ! r)]
      in s\<lparr>pendingReadTransactions := pend, actpreEnergy := act, bankStates := bs3\<rparr>)"

text \<open>\<^verbatim>\<open>case PRECHARGE:\<close>\<close>

definition issuePrecharge :: "Config \<Rightarrow> BusPacket \<Rightarrow> MemoryController \<Rightarrow> MemoryController" where
  "issuePrecharge cfg p s =
     (let now = currentClockCycle s; r = rank p; k = bank p in
      if isSmartMRAM cfg
      then s\<lparr>bankStates := updBank r k (\<lambda>b. b\<lparr>currentBankState := Idle,
                lastCommand := PRECHARGE, stateChangeCountdown := 0,
                nextActivate := now\<rparr>) (bankStates s)\<rparr>
      else s\<lparr>bankStates := updBank r k (\<lambda>b. b\<lparr>currentBankState := Precharging,
                lastCommand := PRECHARGE, stateChangeCountdown := tRP cfg,
                nextActivate := max (now + ucast (tRP cfg)) (nextActivate b)\<rparr>) (bankStates s)\<rparr>)"

text \<open>\<^verbatim>\<open>case REFRESH:\<close>\<close>

definition issueRefresh :: "Config \<Rightarrow> BusPacket \<Rightarrow> MemoryController \<Rightarrow> MemoryController" where
  "issueRefresh cfg p s =
     (let now = currentClockCycle s; r = rank p in
      s\<lparr>refreshEnergy :=
           addAt r (ucast (((IDD5 cfg - IDD3N cfg) * tRFC cfg) * NUM_DEVICES cfg)) (refreshEnergy s),
        bankStates := (bankStates s)[r := map (\<lambda>b. b\<lparr>nextActivate := now + ucast (tRFC cfg),
                          currentBankState := Refreshing, lastCommand := REFRESH,
                          stateChangeCountdown := tRFC cfg\<rparr>) (bankStates s ! r)]\<rparr>)"

text \<open>The \<^verbatim>\<open>switch\<close> on the popped packet's type; \<^verbatim>\<open>default\<close> exits.\<close>

definition switchCommand :: "Config \<Rightarrow> BusPacket \<Rightarrow> MemoryController \<Rightarrow> error + MemoryController" where
  "switchCommand cfg p s =
     (case busPacketType p of
        READ_P \<Rightarrow> Inr (issueRead cfg p s)
      | READ \<Rightarrow> Inr (issueRead cfg p s)
      | WRITE_P \<Rightarrow> Inr (issueWrite cfg p s)
      | WRITE \<Rightarrow> Inr (issueWrite cfg p s)
      | ACTIVATE \<Rightarrow> Inr (issueActivate cfg p s)
      | PRECHARGE \<Rightarrow> Inr (issuePrecharge cfg p s)
      | REFRESH \<Rightarrow> Inr (issueRefresh cfg p s)
      | DATA \<Rightarrow> Inl (PoppedBadCommand DATA))"

text \<open>
  A WRITE or WRITE_P first queues its DATA twin with countdown \<^verbatim>\<open>WL\<close>.
\<close>

definition pushWriteData :: "Config \<Rightarrow> BusPacket \<Rightarrow> MemoryController \<Rightarrow> MemoryController" where
  "pushWriteData cfg p s =
     (if busPacketType p = WRITE \<or> busPacketType p = WRITE_P
      then s\<lparr>writeDataToSend := writeDataToSend s @ [p\<lparr>busPacketType := DATA\<rparr>],
             writeDataCountdown := writeDataCountdown s @ [WL cfg]\<rparr>
      else s)"

text \<open>
  \<^verbatim>\<open>if (commandQueue.pop(&poppedBusPacket)) { ... }\<close>: the command queue is a
  collaborator, so what it pops this cycle (\<open>None\<close> when \<^verbatim>\<open>pop\<close> returns false)
  is an input.
\<close>

definition issuePopped ::
  "Config \<Rightarrow> BusPacket option \<Rightarrow> MemoryController \<Rightarrow> error + MemoryController" where
  "issuePopped cfg popped s =
     (case popped of
        None \<Rightarrow> Inr s
      | Some p \<Rightarrow>
          (case switchCommand cfg p (pushWriteData cfg p s) of
             Inl e \<Rightarrow> Inl e
           | Inr s2 \<Rightarrow>
               (if outgoingCmdPacket s2 \<noteq> None then Inl CommandBusCollision
                else Inr (s2\<lparr>outgoingCmdPacket := Some p, cmdCyclesLeft := tCMD cfg\<rparr>))))"

section \<open>The collaborators of one update\<close>

text \<open>
  The command queue, the address mapping, the ranks and the registered callbacks live
  outside the controller's file. What they answer during one call of
  \<^verbatim>\<open>update\<close> is an input of the model:
  \<^item> \<open>popped\<close>: the packet \<^verbatim>\<open>commandQueue.pop\<close> hands out, if any;
  \<^item> \<open>hasRoomFor\<close>, \<open>isEmpty\<close>: the command queue's answers;
  \<^item> \<open>addressMapping\<close>: channel, rank, bank, row and column of an address;
  \<^item> \<open>getBusPacketType\<close>: the command a transaction turns into;
  \<^item> \<open>hasReturnReadData\<close>, \<open>hasWriteDataDone\<close>: whether the callback is registered;
  \<^item> \<open>rankReaction\<close>: what a rank's \<^verbatim>\<open>receiveFromBus\<close> does to the ranks'
    \<^verbatim>\<open>refreshWaiting\<close> flags.
\<close>

record Env =
  popped :: "BusPacket option"
  hasRoomFor :: "nat \<Rightarrow> nat \<Rightarrow> nat \<Rightarrow> bool"
  isEmpty :: "nat \<Rightarrow> bool"
  addressMapping :: "u64 \<Rightarrow> nat \<times> nat \<times> nat \<times> u32 \<times> u32"
  getBusPacketType :: "Transaction \<Rightarrow> BusPacketType"
  hasReturnReadData :: bool
  hasWriteDataDone :: bool
  rankReaction :: "BusPacket \<Rightarrow> (nat \<Rightarrow> bool) \<Rightarrow> (nat \<Rightarrow> bool)"

section \<open>The buses\<close>

definition advanceCmdBus :: "Env \<Rightarrow> MemoryController \<Rightarrow> MemoryController" where
  "advanceCmdBus env s =
     (case outgoingCmdPacket s of
        None \<Rightarrow> s
      | Some p \<Rightarrow>
          (let s1 = s\<lparr>cmdCyclesLeft := cmdCyclesLeft s - 1\<rparr> in
           if cmdCyclesLeft s1 = 0
           then s1\<lparr>events := events s1 @ [RankReceiveFromBus (rank p) p],
                   refreshWaiting := rankReaction env p (refreshWaiting s1),
                   outgoingCmdPacket := None\<rparr>
           else s1))"

definition advanceDataBus :: "Env \<Rightarrow> MemoryController \<Rightarrow> MemoryController" where
  "advanceDataBus env s =
     (case outgoingDataPacket s of
        None \<Rightarrow> s
      | Some p \<Rightarrow>
          (let s1 = s\<lparr>dataCyclesLeft := dataCyclesLeft s - 1\<rparr> in
           if dataCyclesLeft s1 = 0
           then s1\<lparr>events := events s1 @
                       (if hasWriteDataDone env
                        then [WriteDataDone (physicalAddress p) (currentClockCycle s1)] else []) @
                       [RankReceiveFromBus (rank p) p],
                   refreshWaiting := rankReaction env p (refreshWaiting s1),
                   outgoingDataPacket := None\<rparr>
           else s1))"

section \<open>The write-data FIFO\<close>

text \<open>
  \<^verbatim>\<open>writeDataToSend\<close> and \<^verbatim>\<open>writeDataCountdown\<close> are pushed and erased
  together. Reading \<^verbatim>\<open>writeDataToSend[0]\<close> of an empty vector is undefined in
  the source; the model stops with \<open>WriteDataFifoMismatch\<close> there.
\<close>

definition drainWriteData :: "Config \<Rightarrow> MemoryController \<Rightarrow> error + MemoryController" where
  "drainWriteData cfg s =
     (if length (writeDataCountdown s) > 0 then
        (case map (\<lambda>c. c - 1) (writeDataCountdown s) of
           [] \<Rightarrow> Inr s
         | c # cs \<Rightarrow>
             (if c = 0 then
                (if outgoingDataPacket s \<noteq> None then Inl DataBusCollision
                 else
                   (case writeDataToSend s of
                      [] \<Rightarrow> Inl WriteDataFifoMismatch
                    | p # ps \<Rightarrow>
                        Inr (s\<lparr>outgoingDataPacket := Some p,
                               dataCyclesLeft := BL cfg div 2,
                               totalTransactions := totalTransactions s + 1,
                               totalWritesPerBank :=
                                 addAt (SEQUENTIAL cfg (rank p) (bank p)) 1 (totalWritesPerBank s),
                               writeDataCountdown := cs,
                               writeDataToSend := ps\<rparr>)))
              else Inr (s\<lparr>writeDataCountdown := c # cs\<rparr>)))
      else Inr s)"

section \<open>The refresh gate\<close>

definition refreshGate :: "Config \<Rightarrow> MemoryController \<Rightarrow> MemoryController" where
  "refreshGate cfg s =
     (let rr = refreshRank s in
      if refreshCountdown s ! rr = 0 then
        s\<lparr>events := events s @ [NeedRefresh rr],
          refreshWaiting := (refreshWaiting s)(rr := True),
          refreshCountdown := (refreshCountdown s)[rr := REFRESH_PERIOD_cycles cfg],
          refreshRank := (if rr + 1 = NUM_RANKS cfg then 0 else rr + 1)\<rparr>
      else if powerDown s ! rr \<and> refreshCountdown s ! rr \<le> tXP cfg then
        s\<lparr>refreshWaiting := (refreshWaiting s)(rr := True)\<rparr>
      else s)"

section \<open>Admitting one transaction\<close>

text \<open>
  The loop over \<^verbatim>\<open>transactionQueue\<close>: the first transaction whose bank has room
  for two commands is erased from the queue; the scan stops there.
\<close>

fun admitScan ::
  "Env \<Rightarrow> Transaction list \<Rightarrow> Transaction list \<Rightarrow> (Transaction list \<times> Transaction) option" where
  "admitScan env pre [] = None"
| "admitScan env pre (t # ts) =
     (case addressMapping env (address t) of
        (ch, r, b, rw, c) \<Rightarrow>
          if hasRoomFor env 2 r b then Some (pre @ ts, t)
          else admitScan env (pre @ [t]) ts)"

definition admitTransaction :: "Env \<Rightarrow> MemoryController \<Rightarrow> MemoryController" where
  "admitTransaction env s =
     (case admitScan env [] (transactionQueue s) of
        None \<Rightarrow> s
      | Some (q, t) \<Rightarrow>
          (case addressMapping env (address t) of
             (ch, r, b, rw, c) \<Rightarrow>
               (let ACTcommand = \<lparr>busPacketType = ACTIVATE, physicalAddress = address t,
                                  column = c, row = rw, rank = r, bank = b, data = 0\<rparr>;
                    command = \<lparr>busPacketType = getBusPacketType env t,
                               physicalAddress = address t,
                               column = c, row = rw, rank = r, bank = b, data = trans_data t\<rparr>
                in s\<lparr>transactionQueue := q,
                     pendingReadTransactions :=
                       (if transactionType t = DATA_READ
                        then pendingReadTransactions s @ [t]
                        else pendingReadTransactions s),
                     events := events s @ [Enqueue ACTcommand, Enqueue command]\<rparr>)))"

section \<open>Power: low-power management and background energy\<close>

definition lowPowerRank :: "Config \<Rightarrow> Env \<Rightarrow> nat \<Rightarrow> MemoryController \<Rightarrow> MemoryController" where
  "lowPowerRank cfg env i s =
     (if USE_LOW_POWER cfg then
        (if isEmpty env i \<and> \<not> refreshWaiting s i then
           (if list_all (\<lambda>b. currentBankState b = Idle) (bankStates s ! i)
            then s\<lparr>powerDown := (powerDown s)[i := True],
                   events := events s @ [RankPowerDown i],
                   bankStates := (bankStates s)[i :=
                     map (\<lambda>b. b\<lparr>currentBankState := PowerDown,
                                 nextPowerUp := currentClockCycle s + ucast (tCKE cfg)\<rparr>)
                         (bankStates s ! i)]\<rparr>
            else s)
         else if currentClockCycle s \<ge> nextPowerUp (bankStates s ! i ! 0) \<and> powerDown s ! i then
           s\<lparr>powerDown := (powerDown s)[i := False],
             events := events s @ [RankPowerUp i],
             bankStates := (bankStates s)[i :=
               map (\<lambda>b. b\<lparr>currentBankState := Idle,
                           nextActivate := currentClockCycle s + ucast (tXP cfg)\<rparr>)
                   (bankStates s ! i)]\<rparr>
         else s)
      else s)"

definition backgroundRank :: "Config \<Rightarrow> nat \<Rightarrow> MemoryController \<Rightarrow> MemoryController" where
  "backgroundRank cfg i s =
     (if list_ex (\<lambda>b. currentBankState b = Refreshing \<or> currentBankState b = RowActive)
           (bankStates s ! i)
      then s\<lparr>backgroundEnergy :=
               addAt i (ucast (IDD3N cfg * NUM_DEVICES cfg)) (backgroundEnergy s)\<rparr>
      else if powerDown s ! i
      then s\<lparr>backgroundEnergy :=
               addAt i (ucast (IDD2P cfg * NUM_DEVICES cfg)) (backgroundEnergy s)\<rparr>
      else s\<lparr>backgroundEnergy :=
               addAt i (ucast (IDD2N cfg * NUM_DEVICES cfg)) (backgroundEnergy s)\<rparr>)"

text \<open>One pass of the loop over the ranks, and the loop.\<close>

definition powerRank :: "Config \<Rightarrow> Env \<Rightarrow> nat \<Rightarrow> MemoryController \<Rightarrow> MemoryController" where
  "powerRank cfg env i s = backgroundRank cfg i (lowPowerRank cfg env i s)"

definition calculatePower :: "Config \<Rightarrow> Env \<Rightarrow> MemoryController \<Rightarrow> MemoryController" where
  "calculatePower cfg env s = fold (powerRank cfg env) [0..<NUM_RANKS cfg] s"

section \<open>Returning read data\<close>

text \<open>\<^verbatim>\<open>m[k]++\<close> on a \<^verbatim>\<open>map<unsigned,unsigned>\<close>: a missing key starts at 0.\<close>

definition bump :: "(u32 \<rightharpoonup> u32) \<Rightarrow> u32 \<Rightarrow> (u32 \<rightharpoonup> u32)" where
  "bump m k = m(k \<mapsto> (case m k of Some v \<Rightarrow> v | None \<Rightarrow> 0) + 1)"

definition insertHistogram ::
  "Config \<Rightarrow> u32 \<Rightarrow> nat \<Rightarrow> nat \<Rightarrow> MemoryController \<Rightarrow> MemoryController" where
  "insertHistogram cfg latencyValue r b s =
     s\<lparr>totalEpochLatency :=
         addAt (SEQUENTIAL cfg r b) (ucast latencyValue) (totalEpochLatency s),
       latencies := bump (latencies s)
                      ((latencyValue div HISTOGRAM_BIN_SIZE cfg) * HISTOGRAM_BIN_SIZE cfg)\<rparr>"

text \<open>Index of the first pending read with the given address.\<close>

fun findPending :: "u64 \<Rightarrow> Transaction list \<Rightarrow> nat option" where
  "findPending a [] = None"
| "findPending a (t # ts) =
     (if address t = a then Some 0 else map_option Suc (findPending a ts))"

definition returnPath :: "Config \<Rightarrow> Env \<Rightarrow> MemoryController \<Rightarrow> error + MemoryController" where
  "returnPath cfg env s =
     (case returnTransaction s of
        [] \<Rightarrow> Inr s
      | rt # rest \<Rightarrow>
          (let s1 = s\<lparr>totalTransactions := totalTransactions s + 1\<rparr> in
           case findPending (address rt) (pendingReadTransactions s1) of
             None \<Rightarrow> Inl (NoMatchingTransaction (address rt))
           | Some i \<Rightarrow>
               (case addressMapping env (address rt) of
                  (ch, r, b, rw, c) \<Rightarrow>
                    (let pt = pendingReadTransactions s1 ! i;
                         totalLatency = (ucast (currentClockCycle s1 - timeAdded pt) :: u32);
                         s2 = insertHistogram cfg totalLatency r b s1;
                         accessLatency = (ucast (currentClockCycle s2 - timeACTIssued pt) :: u32);
                         s3 = s2\<lparr>accessLatencies := bump (accessLatencies s2)
                                 ((accessLatency div HISTOGRAM_BIN_SIZE cfg)
                                    * HISTOGRAM_BIN_SIZE cfg)\<rparr>;
                         s4 = s3\<lparr>events := events s3 @
                                 (if hasReturnReadData env
                                  then [ReturnReadData (address pt) (currentClockCycle s3)]
                                  else [])\<rparr>
                     in Inr (s4\<lparr>pendingReadTransactions :=
                                  take i (pendingReadTransactions s4)
                                    @ drop (Suc i) (pendingReadTransactions s4),
                                returnTransaction := rest\<rparr>)))))"

section \<open>One call of update\<close>

definition bindE :: "error + 'a \<Rightarrow> ('a \<Rightarrow> error + 'b) \<Rightarrow> error + 'b" where
  "bindE m f = (case m of Inl e \<Rightarrow> Inl e | Inr x \<Rightarrow> f x)"

definition decrementRefresh :: "MemoryController \<Rightarrow> MemoryController" where
  "decrementRefresh s = s\<lparr>refreshCountdown := map (\<lambda>c. c - 1) (refreshCountdown s)\<rparr>"

definition stepCommandQueue :: "MemoryController \<Rightarrow> MemoryController" where
  "stepCommandQueue s = s\<lparr>events := events s @ [CommandQueueStep]\<rparr>"

text \<open>
  The phases in the order of the source. An \<^verbatim>\<open>exit\<close> or \<^verbatim>\<open>abort\<close> ends the
  run: the result is \<open>Inl\<close> of the error. \<open>update\<close> runs the bank countdowns, the two
  buses and the write-data FIFO, \<open>gateAndIssue\<close> the refresh gate and the popped command,
  \<open>admitAndReturn\<close> the admission of a transaction, the power accounting and the return
  path, \<open>finishUpdate\<close> the decrement of the refresh countdowns and the step of the
  command queue.
\<close>

definition finishUpdate :: "MemoryController \<Rightarrow> error + MemoryController" where
  "finishUpdate s4 = Inr (stepCommandQueue (decrementRefresh s4))"

definition admitAndReturn :: "Config \<Rightarrow> Env \<Rightarrow> MemoryController \<Rightarrow> error + MemoryController" where
  "admitAndReturn cfg env s3 =
     bindE (returnPath cfg env (calculatePower cfg env (admitTransaction env s3))) finishUpdate"

definition gateAndIssue :: "Config \<Rightarrow> Env \<Rightarrow> MemoryController \<Rightarrow> error + MemoryController" where
  "gateAndIssue cfg env s2 =
     bindE (issuePopped cfg (popped env) (refreshGate cfg s2)) (admitAndReturn cfg env)"

definition update :: "Config \<Rightarrow> Env \<Rightarrow> MemoryController \<Rightarrow> error + MemoryController" where
  "update cfg env s =
     bindE (drainWriteData cfg (advanceDataBus env (advanceCmdBus env (updateBankStates cfg s))))
       (gateAndIssue cfg env)"

section \<open>The other entry points\<close>

definition WillAcceptTransaction :: "Config \<Rightarrow> MemoryController \<Rightarrow> bool" where
  "WillAcceptTransaction cfg s \<longleftrightarrow> length (transactionQueue s) < TRANS_QUEUE_DEPTH cfg"

text \<open>
  \<^verbatim>\<open>addTransaction\<close> returns its verdict and the controller; the transaction as
  stored carries the stamp.
\<close>

definition addTransaction ::
  "Config \<Rightarrow> Transaction \<Rightarrow> MemoryController \<Rightarrow> bool \<times> MemoryController" where
  "addTransaction cfg t s =
     (if WillAcceptTransaction cfg s
      then (True, s\<lparr>transactionQueue :=
                      transactionQueue s @ [t\<lparr>timeAdded := currentClockCycle s\<rparr>]\<rparr>)
      else (False, s))"

text \<open>
  \<^verbatim>\<open>receiveFromBus\<close>: a DATA packet coming back from a rank becomes a
  RETURN_DATA transaction; the two time stamps of that transaction are never read and
  are 0 here.
\<close>

definition receiveFromBus :: "Config \<Rightarrow> BusPacket \<Rightarrow> MemoryController \<Rightarrow> error + MemoryController" where
  "receiveFromBus cfg bpacket s =
     (if busPacketType bpacket \<noteq> DATA then Inl NonDataPacketFromRank
      else Inr (s\<lparr>returnTransaction := returnTransaction s @
                     [\<lparr>transactionType = RETURN_DATA, address = physicalAddress bpacket,
                       trans_data = data bpacket, timeAdded = 0, timeACTIssued = 0\<rparr>],
                  totalReadsPerBank :=
                    addAt (SEQUENTIAL cfg (rank bpacket) (bank bpacket)) 1 (totalReadsPerBank s)\<rparr>))"

text \<open>
  \<^verbatim>\<open>resetStats\<close>, which \<^verbatim>\<open>printStats\<close> calls at the end of every statistics
  dump. The inner loop runs over the banks of rank \<open>i\<close>.
\<close>

definition resetBank :: "Config \<Rightarrow> nat \<Rightarrow> nat \<Rightarrow> MemoryController \<Rightarrow> MemoryController" where
  "resetBank cfg i j s =
     (let k = SEQUENTIAL cfg i j in
      s\<lparr>grandTotalBankAccesses :=
          addAt k (totalReadsPerBank s ! k + totalWritesPerBank s ! k) (grandTotalBankAccesses s),
        totalReadsPerBank := (totalReadsPerBank s)[k := 0],
        totalWritesPerBank := (totalWritesPerBank s)[k := 0],
        totalEpochLatency := (totalEpochLatency s)[k := 0]\<rparr>)"

definition resetRank :: "Config \<Rightarrow> nat \<Rightarrow> MemoryController \<Rightarrow> MemoryController" where
  "resetRank cfg i s =
     (let s1 = fold (resetBank cfg i) [0..<NUM_BANKS cfg] s in
      s1\<lparr>burstEnergy := (burstEnergy s1)[i := 0],
         actpreEnergy := (actpreEnergy s1)[i := 0],
         refreshEnergy := (refreshEnergy s1)[i := 0],
         backgroundEnergy := (backgroundEnergy s1)[i := 0],
         totalReadsPerRank := (totalReadsPerRank s1)[i := 0],
         totalWritesPerRank := (totalWritesPerRank s1)[i := 0]\<rparr>)"

definition resetStats :: "Config \<Rightarrow> MemoryController \<Rightarrow> MemoryController" where
  "resetStats cfg s =
     (let s1 = fold (resetRank cfg) [0..<NUM_RANKS cfg] s
      in s1\<lparr>events := events s1 @ [ResetRowBufferStats]\<rparr>)"

text \<open>
  \<^verbatim>\<open>printStats\<close>, the statistics dump at the end of an epoch or of the simulation.
  What it prints and reports is floating-point arithmetic on the counters and is left
  out; what it does to the controller is to add the per-bank totals to the per-rank ones
  and to call \<^verbatim>\<open>resetStats\<close>.
\<close>

definition tallyBank :: "Config \<Rightarrow> nat \<Rightarrow> nat \<Rightarrow> MemoryController \<Rightarrow> MemoryController" where
  "tallyBank cfg i j s =
     s\<lparr>totalReadsPerRank :=
         addAt i (totalReadsPerBank s ! SEQUENTIAL cfg i j) (totalReadsPerRank s),
       totalWritesPerRank :=
         addAt i (totalWritesPerBank s ! SEQUENTIAL cfg i j) (totalWritesPerRank s)\<rparr>"

definition tallyRank :: "Config \<Rightarrow> nat \<Rightarrow> MemoryController \<Rightarrow> MemoryController" where
  "tallyRank cfg i s = fold (tallyBank cfg i) [0..<NUM_BANKS cfg] s"

definition printStats :: "Config \<Rightarrow> MemoryController \<Rightarrow> MemoryController" where
  "printStats cfg s = resetStats cfg (fold (tallyRank cfg) [0..<NUM_RANKS cfg] s)"

section \<open>Construction, the clock and the reachable states\<close>

text \<open>
  The constructor. The vectors get \<^verbatim>\<open>NUM_RANKS\<close> (or
  \<^verbatim>\<open>NUM_RANKS*NUM_BANKS\<close>) entries, the refresh countdowns are staggered:
  rank \<open>i\<close> starts at \<^verbatim>\<open>(int)((REFRESH_PERIOD/tCK)/NUM_RANKS)*(i+1)\<close>. The
  constructor of a bank state is outside the controller's file; \<open>b0\<close> is the bank
  state it builds. A rank starts with \<^verbatim>\<open>refreshWaiting\<close> false.
\<close>

definition newController :: "Config \<Rightarrow> BankState \<Rightarrow> MemoryController" where
  "newController cfg b0 =
     \<lparr>bankStates = replicate (NUM_RANKS cfg) (replicate (NUM_BANKS cfg) b0),
      outgoingCmdPacket = None,
      cmdCyclesLeft = 0,
      outgoingDataPacket = None,
      dataCyclesLeft = 0,
      currentClockCycle = 0,
      transactionQueue = [],
      pendingReadTransactions = [],
      returnTransaction = [],
      writeDataToSend = [],
      writeDataCountdown = [],
      refreshCountdown = map (\<lambda>i. REFRESH_STAGGER cfg * of_nat (i + 1)) [0..<NUM_RANKS cfg],
      refreshRank = 0,
      powerDown = replicate (NUM_RANKS cfg) False,
      refreshWaiting = (\<lambda>i. False),
      backgroundEnergy = replicate (NUM_RANKS cfg) 0,
      burstEnergy = replicate (NUM_RANKS cfg) 0,
      actpreEnergy = replicate (NUM_RANKS cfg) 0,
      refreshEnergy = replicate (NUM_RANKS cfg) 0,
      totalTransactions = 0,
      grandTotalBankAccesses = replicate (NUM_RANKS cfg * NUM_BANKS cfg) 0,
      totalReadsPerBank = replicate (NUM_RANKS cfg * NUM_BANKS cfg) 0,
      totalWritesPerBank = replicate (NUM_RANKS cfg * NUM_BANKS cfg) 0,
      totalReadsPerRank = replicate (NUM_RANKS cfg) 0,
      totalWritesPerRank = replicate (NUM_RANKS cfg) 0,
      totalEpochLatency = replicate (NUM_RANKS cfg * NUM_BANKS cfg) 0,
      latencies = Map.empty,
      accessLatencies = Map.empty,
      events = []\<rparr>"

text \<open>The clock is advanced between two updates, outside \<^verbatim>\<open>update\<close>.\<close>

definition tick :: "MemoryController \<Rightarrow> MemoryController" where
  "tick s = s\<lparr>currentClockCycle := currentClockCycle s + 1\<rparr>"

text \<open>
  The states a controller can be in: built by the constructor, then driven through
  its entry points in any order, as long as no call ends the run.
\<close>

inductive reachable :: "Config \<Rightarrow> MemoryController \<Rightarrow> bool" for cfg :: Config where
  constructed: "reachable cfg (newController cfg b0)"
| added: "reachable cfg s \<Longrightarrow> reachable cfg (snd (addTransaction cfg t s))"
| updated: "reachable cfg s \<Longrightarrow> update cfg env s = Inr s' \<Longrightarrow> reachable cfg s'"
| received: "reachable cfg s \<Longrightarrow> receiveFromBus cfg p s = Inr s' \<Longrightarrow> reachable cfg s'"
| ticked: "reachable cfg s \<Longrightarrow> reachable cfg (tick s)"
| stats_reset: "reachable cfg s \<Longrightarrow> reachable cfg (resetStats cfg s)"
| stats_printed: "reachable cfg s \<Longrightarrow> reachable cfg (printStats cfg s)"

text \<open>The vectors have the sizes the constructor gives them.\<close>

definition sized :: "Config \<Rightarrow> MemoryController \<Rightarrow> bool" where
  "sized cfg s \<longleftrightarrow>
     length (bankStates s) = NUM_RANKS cfg \<and>
     list_all (\<lambda>r. length r = NUM_BANKS cfg) (bankStates s) \<and>
     length (backgroundEnergy s) = NUM_RANKS cfg \<and>
     length (burstEnergy s) = NUM_RANKS cfg \<and>
     length (actpreEnergy s) = NUM_RANKS cfg \<and>
     length (refreshEnergy s) = NUM_RANKS cfg \<and>
     length (refreshCountdown s) = NUM_RANKS cfg \<and>
     length (powerDown s) = NUM_RANKS cfg"

section \<open>Example configurations\<close>

text \<open>
  A small DDR3-like device with one rank of two banks, in the conventional and in the
  SMART variant, used to run the model on concrete inputs.
\<close>

definition exampleConfig :: "bool \<Rightarrow> Config" where
  "exampleConfig smart =
     \<lparr>NUM_RANKS = 1, NUM_BANKS = 2, NUM_DEVICES = 8, TRANS_QUEUE_DEPTH = 2,
      IDD0 = 100, IDD2P = 10, IDD2N = 40, IDD3N = 45, IDD4W = 150, IDD4R = 140, IDD5 = 200,
      tRC = 34, tRAS = 24, tRCD = 10, tRP = 10, tRRD = 4, tRFC = 74, tCCD = 4, tRTRS = 1,
      tCMD = 1, tXP = 4, tCKE = 4, AL = 0, BL = 8, WL = 9,
      READ_TO_PRE_DELAY = 5, WRITE_TO_PRE_DELAY = 23, READ_AUTOPRE_DELAY = 15,
      WRITE_AUTOPRE_DELAY = 33, READ_TO_WRITE_DELAY = 6, WRITE_TO_READ_DELAY_B = 18,
      WRITE_TO_READ_DELAY_R = 4, REFRESH_PERIOD_cycles = 5200, REFRESH_STAGGER = 5200,
      HISTOGRAM_BIN_SIZE = 10, isSmartMRAM = smart, USE_LOW_POWER = False\<rparr>"

definition idleBank :: BankState where
  "idleBank = \<lparr>currentBankState = Idle, openRowAddress = 0, nextRead = 0, nextWrite = 0,
               nextActivate = 0, nextPrecharge = 0, nextPowerUp = 0, lastCommand = READ,
               stateChangeCountdown = 0\<rparr>"

definition examplePacket :: "BusPacketType \<Rightarrow> nat \<Rightarrow> BusPacket" where
  "examplePacket ty b =
     \<lparr>busPacketType = ty, physicalAddress = 4096, column = 0, row = 1, rank = 0, bank = b,
      data = 0\<rparr>"

definition exampleEnv :: "BusPacket option \<Rightarrow> Env" where
  "exampleEnv pk =
     \<lparr>popped = pk, hasRoomFor = (\<lambda>n r b. True), isEmpty = (\<lambda>r. True),
      addressMapping = (\<lambda>a. (0, 0, 0, 1, 0)),
      getBusPacketType = (\<lambda>t. if transactionType t = DATA_READ then READ else WRITE),
      hasReturnReadData = True, hasWriteDataDone = True,
      rankReaction = (\<lambda>p w. w)\<rparr>"

text \<open>
  The harness calls \<^verbatim>\<open>update\<close> once per cycle and then advances the clock;
  \<open>run\<close> does so for a list of cycles, each with what the collaborators answer in it.
\<close>

fun run :: "Config \<Rightarrow> Env list \<Rightarrow> MemoryController \<Rightarrow> error + MemoryController"
  and thenRun :: "Config \<Rightarrow> Env list \<Rightarrow> error + MemoryController \<Rightarrow> error + MemoryController"
where
  "run cfg [] s = Inr s"
| "run cfg (env # envs) s = thenRun cfg envs (update cfg env s)"
| "thenRun cfg envs (Inl e) = Inl e"
| "thenRun cfg envs (Inr s) = run cfg envs (tick s)"

text \<open>
  SMART: ACTIVATE to bank 0 in cycle 0, READ to bank 0 in cycle 3; the state at the
  start of cycle 4, when \<^verbatim>\<open>tRRD\<close> allows an ACTIVATE to bank 1.
\<close>

definition smartAfterRead :: "error + MemoryController" where
  "smartAfterRead =
     run (exampleConfig True)
       [exampleEnv (Some (examplePacket ACTIVATE 0)), exampleEnv None, exampleEnv None,
        exampleEnv (Some (examplePacket READ 0))]
       (newController (exampleConfig True) idleBank)"

text \<open>SMART: ACTIVATE to bank 0 in cycle 0; the state at the start of cycle 1.\<close>

definition smartAfterActivate :: "error + MemoryController" where
  "smartAfterActivate =
     run (exampleConfig True) [exampleEnv (Some (examplePacket ACTIVATE 0))]
       (newController (exampleConfig True) idleBank)"



text \<open>A read of address 4096, and the example controller after two such requests.\<close>

definition exampleTransaction :: Transaction where
  "exampleTransaction =
     \<lparr>transactionType = DATA_READ, address = 4096, trans_data = 0, timeAdded = 0,
      timeACTIssued = 0\<rparr>"

definition fullQueueState :: MemoryController where
  "fullQueueState =
     snd (addTransaction (exampleConfig False) exampleTransaction
       (snd (addTransaction (exampleConfig False) exampleTransaction
          (newController (exampleConfig False) idleBank))))"

text \<open>
  The example device with a write latency of two cycles, and three runs on it: a WRITE
  in cycle 0; the same followed by a quiet cycle; and two WRITEs in cycles 0 and 1
  followed by a quiet cycle, after which the second data packet finds the bus taken.
\<close>

definition writeConfig :: Config where
  "writeConfig = (exampleConfig False)\<lparr>WL := 2\<rparr>"

definition afterWrite :: MemoryController where
  "afterWrite = projr (run writeConfig [exampleEnv (Some (examplePacket WRITE 0))]
                   (newController writeConfig idleBank))"

definition writeDataDue :: MemoryController where
  "writeDataDue = projr (run writeConfig [exampleEnv (Some (examplePacket WRITE 0)), exampleEnv None]
                     (newController writeConfig idleBank))"

definition writeDataClash :: MemoryController where
  "writeDataClash =
     projr (run writeConfig
       [exampleEnv (Some (examplePacket WRITE 0)), exampleEnv (Some (examplePacket WRITE 0)),
        exampleEnv None]
       (newController writeConfig idleBank))"

text \<open>
  A read of address 4096 on the SMART example device: added in cycle 0 and admitted
  by the update of that cycle, ACTIVATE in cycle 5, READ in cycle 6, the data packet
  handed back by the rank before the update of cycle 14. And a controller that is
  handed a data packet nobody has asked for.
\<close>

definition readReturning :: MemoryController where
  "readReturning =
     projr (bindE
       (run (exampleConfig True)
          [exampleEnv None, exampleEnv None, exampleEnv None, exampleEnv None, exampleEnv None,
           exampleEnv (Some (examplePacket ACTIVATE 0)), exampleEnv (Some (examplePacket READ 0)),
           exampleEnv None, exampleEnv None, exampleEnv None, exampleEnv None, exampleEnv None,
           exampleEnv None, exampleEnv None]
          (snd (addTransaction (exampleConfig True) exampleTransaction
             (newController (exampleConfig True) idleBank))))
       (receiveFromBus (exampleConfig True) (examplePacket DATA 0)))"

definition strayReturn :: MemoryController where
  "strayReturn =
     projr (receiveFromBus (exampleConfig True) (examplePacket DATA 0)
       (newController (exampleConfig True) idleBank))"

text \<open>The events that are a \<^verbatim>\<open>ReturnReadData\<close> callback.\<close>

fun isReturnReadData :: "event \<Rightarrow> bool" where
  "isReturnReadData (ReturnReadData a c) = True"
| "isReturnReadData e = False"

text \<open>
  Two reads of address 4096 added in cycle 0, admitted in cycles 0 and 1, ACTIVATE in
  cycle 2, the two READs in cycles 3 and 4, and both data packets handed back by the
  rank before the update of cycle 7.
\<close>

definition twoReturnsQueued :: MemoryController where
  "twoReturnsQueued =
     projr (bindE (bindE
       (run (exampleConfig True)
          [exampleEnv None, exampleEnv None,
           exampleEnv (Some (examplePacket ACTIVATE 0)), exampleEnv (Some (examplePacket READ 0)),
           exampleEnv (Some (examplePacket READ 0)), exampleEnv None, exampleEnv None]
          (snd (addTransaction (exampleConfig True) exampleTransaction
             (snd (addTransaction (exampleConfig True) exampleTransaction
                (newController (exampleConfig True) idleBank))))))
       (receiveFromBus (exampleConfig True) (examplePacket DATA 0)))
       (receiveFromBus (exampleConfig True) (examplePacket DATA 0)))"

text \<open>
  A 64-bit counter after at most one \<^verbatim>\<open>+=\<close> of an \<^verbatim>\<open>unsigned\<close> amount.
\<close>

definition credited :: "u64 \<Rightarrow> u64 \<Rightarrow> bool" where
  "credited old new \<longleftrightarrow> new = old \<or> (\<exists>x :: u32. new = old + ucast x)"

text \<open>
  The conventional example device after a REFRESH, an ACTIVATE and a READ in cycles 0, 1
  and 2; and the four energy counters of a rank side by side.
\<close>

definition energySpent :: MemoryController where
  "energySpent =
     projr (run (exampleConfig False)
       [exampleEnv (Some (examplePacket REFRESH 0)), exampleEnv (Some (examplePacket ACTIVATE 0)),
        exampleEnv (Some (examplePacket READ 0))]
       (newController (exampleConfig False) idleBank))"

definition rankEnergy :: "MemoryController \<Rightarrow> nat \<Rightarrow> u64 \<times> u64 \<times> u64 \<times> u64" where
  "rankEnergy s r =
     (backgroundEnergy s ! r, burstEnergy s ! r, actpreEnergy s ! r, refreshEnergy s ! r)"

text \<open>
  The refresh countdowns in the order in which the ranks are due, starting at the
  refresh rank, as natural numbers.
\<close>

definition refreshOrder :: "nat \<Rightarrow> u32 list \<Rightarrow> nat list" where
  "refreshOrder rr cds = map unat (drop rr cds @ take rr cds)"

text \<open>
  The ranks come due one after the other in round-robin order, each at least the
  stagger after the one before it, and the last of them at least the stagger before the
  refresh rank is due again.
\<close>

definition staggered :: "Config \<Rightarrow> nat \<Rightarrow> nat \<Rightarrow> bool" where
  "staggered cfg a b \<longleftrightarrow> a + unat (REFRESH_STAGGER cfg) \<le> b"

definition refreshSchedule :: "Config \<Rightarrow> MemoryController \<Rightarrow> bool" where
  "refreshSchedule cfg s \<longleftrightarrow>
     length (refreshCountdown s) = NUM_RANKS cfg \<and> refreshRank s < NUM_RANKS cfg \<and>
     sorted_wrt (staggered cfg) (refreshOrder (refreshRank s) (refreshCountdown s)) \<and>
     staggered cfg (last (refreshOrder (refreshRank s) (refreshCountdown s)))
       (unat (REFRESH_PERIOD_cycles cfg) + hd (refreshOrder (refreshRank s) (refreshCountdown s)))"

text \<open>
  A configuration whose refresh stagger is at least one cycle; the stagger times the
  number of ranks is at most the period, as the quotient in the constructor makes it.
\<close>

definition refreshConfigOK :: "Config \<Rightarrow> bool" where
  "refreshConfigOK cfg \<longleftrightarrow>
     0 < NUM_RANKS cfg \<and> 0 < REFRESH_STAGGER cfg \<and>
     NUM_RANKS cfg * unat (REFRESH_STAGGER cfg) \<le> unat (REFRESH_PERIOD_cycles cfg)"

text \<open>
  Two ranks that are refreshed every four cycles, two cycles apart, without and with
  the low-power policy; the first after two quiet cycles, when rank 0 is due, and the
  second after one quiet cycle, in which both ranks have been powered down.
\<close>

definition refreshExample :: "bool \<Rightarrow> Config" where
  "refreshExample lowPower =
     (exampleConfig False)\<lparr>NUM_RANKS := 2, REFRESH_PERIOD_cycles := 4, REFRESH_STAGGER := 2,
                           tXP := 1, USE_LOW_POWER := lowPower\<rparr>"

definition refreshDue :: "error + MemoryController" where
  "refreshDue =
     run (refreshExample False) [exampleEnv None, exampleEnv None]
       (newController (refreshExample False) idleBank)"

definition poweredDownBeforeRefresh :: "error + MemoryController" where
  "poweredDownBeforeRefresh =
     run (refreshExample True) [exampleEnv None]
       (newController (refreshExample True) idleBank)"

text \<open>
  Two ranks on a device whose refresh period is a single cycle, so that the stagger
  \<^verbatim>\<open>(int)((REFRESH_PERIOD/tCK)/NUM_RANKS)\<close> is 0 and both countdowns start at 0, after
  the first cycle; and the two ranks of the low-power example with \<^verbatim>\<open>tXP\<close> at 3,
  longer than their stagger of 2, after one quiet cycle in which both ranks have been
  powered down.
\<close>

definition staggerZero :: Config where
  "staggerZero =
     (exampleConfig False)\<lparr>NUM_RANKS := 2, REFRESH_PERIOD_cycles := 1, REFRESH_STAGGER := 0\<rparr>"

definition zeroOffTurn :: "error + MemoryController" where
  "zeroOffTurn = run staggerZero [exampleEnv None] (newController staggerZero idleBank)"

definition lateWake :: Config where
  "lateWake = (refreshExample True)\<lparr>tXP := 3\<rparr>"

definition poweredDownOffTurn :: "error + MemoryController" where
  "poweredDownOffTurn = run lateWake [exampleEnv None] (newController lateWake idleBank)"

section \<open>Properties\<close>

subsection \<open>Vectors\<close>

lemma length_mapi [simp]: "length (mapi f xs) = length xs"
  by (simp add: mapi_def)

lemma nth_mapi [simp]: "i < length xs \<Longrightarrow> mapi f xs ! i = f i (xs ! i)"
  by (simp add: mapi_def nth_enumerate_eq)

lemma length_updBank [simp]: "length (updBank r b f bs) = length bs"
  by (simp add: updBank_def)

lemma length_updBank_row [simp]: "length (updBank r b f bs ! i) = length (bs ! i)"
proof (cases "r < length bs")
  case True
  then show ?thesis by (cases "i = r") (simp_all add: updBank_def)
next
  case False
  then show ?thesis by (simp add: updBank_def list_update_beyond)
qed

lemma nth_updBank:
  "i < length bs \<Longrightarrow> j < length (bs ! i) \<Longrightarrow>
   updBank r b f bs ! i ! j = (if i = r \<and> j = b then f (bs ! i ! j) else bs ! i ! j)"
  by (cases "i = r"; cases "j = b") (simp_all add: updBank_def)

lemma length_addAt [simp]: "length (addAt i d v) = length v"
  by (simp add: addAt_def)

lemma nth_addAt:
  "j < length v \<Longrightarrow> addAt i d v ! j = (if j = i then v ! j + d else v ! j)"
  by (simp add: addAt_def nth_list_update)

lemma sized_row:
  "sized cfg s \<Longrightarrow> r < NUM_RANKS cfg \<Longrightarrow> length (bankStates s ! r) = NUM_BANKS cfg"
  by (simp add: sized_def list_all_length)

lemma example_sized: "sized (exampleConfig smart) (newController (exampleConfig smart) idleBank)"
  by (simp add: sized_def exampleConfig_def newController_def)

subsection \<open>ACTIVATE\<close>

lemma issueActivate_bank:
  assumes "sized cfg s" "rank p < NUM_RANKS cfg" "bank p < NUM_BANKS cfg"
  shows "bankStates (issueActivate cfg p s) ! rank p ! bank p =
     (let b = bankStates s ! rank p ! bank p; now = currentClockCycle s in
      if isSmartMRAM cfg
      then b\<lparr>currentBankState := RowActive, lastCommand := ACTIVATE, openRowAddress := row p,
             nextActivate := max (now + ucast (tRRD cfg)) (nextActivate b),
             nextPrecharge := now,
             nextRead := max now (nextRead b),
             nextWrite := max now (nextWrite b)\<rparr>
      else b\<lparr>currentBankState := RowActive, lastCommand := ACTIVATE, openRowAddress := row p,
             nextActivate := max (now + ucast (tRC cfg)) (nextActivate b),
             nextPrecharge := max (now + ucast (tRAS cfg)) (nextPrecharge b),
             nextRead := max (now + ucast (tRCD cfg - AL cfg)) (nextRead b),
             nextWrite := max (now + ucast (tRCD cfg - AL cfg)) (nextWrite b)\<rparr>)"
  using assms sized_row[OF assms(1,2)]
  by (simp add: issueActivate_def Let_def nth_updBank sized_def)

lemma issueActivate_other:
  assumes "sized cfg s" "rank p < NUM_RANKS cfg" "j < NUM_BANKS cfg" "j \<noteq> bank p"
  shows "bankStates (issueActivate cfg p s) ! rank p ! j =
     (bankStates s ! rank p ! j)\<lparr>nextActivate :=
         max (currentClockCycle s + ucast (tRRD cfg)) (nextActivate (bankStates s ! rank p ! j))\<rparr>"
  using assms sized_row[OF assms(1,2)]
  by (simp add: issueActivate_def Let_def nth_updBank sized_def)

lemma issueActivate_fields:
  "actpreEnergy (issueActivate cfg p s) =
     (if \<not> isSmartMRAM cfg then addAt (rank p) (ucast (activationEnergy cfg)) (actpreEnergy s)
      else actpreEnergy s)"
  "outgoingCmdPacket (issueActivate cfg p s) = outgoingCmdPacket s"
  "currentClockCycle (issueActivate cfg p s) = currentClockCycle s"
  by (simp_all add: issueActivate_def Let_def)

lemma issuePopped_ACTIVATE:
  assumes "busPacketType p = ACTIVATE"
  shows "issuePopped cfg (Some p) s =
     (if outgoingCmdPacket s \<noteq> None then Inl CommandBusCollision
      else Inr ((issueActivate cfg p s)\<lparr>outgoingCmdPacket := Some p, cmdCyclesLeft := tCMD cfg\<rparr>))"
  using assms
  by (simp add: issuePopped_def switchCommand_def pushWriteData_def issueActivate_fields)

text \<open>
  C4. Conventional device (\<^verbatim>\<open>isSmartMRAM\<close> false): an ACTIVATE popped for bank
  \<open>(rank p, bank p)\<close> at cycle \<open>now\<close>, with the command bus free, is issued. It adds
  \<^verbatim>\<open>((IDD0*tRC) - ((IDD3N*tRAS) + (IDD2N*(tRC-tRAS)))) * NUM_DEVICES\<close> to
  \<^verbatim>\<open>actpreEnergy[rank]\<close>, and each guard of the issuing bank becomes the maximum of
  its old value and the new bound: \<open>nextActivate \<ge> now + tRC\<close>,
  \<open>nextPrecharge \<ge> now + tRAS\<close>, and \<open>nextRead\<close> and \<open>nextWrite\<close> are each
  \<open>\<ge> now + (tRCD - AL)\<close>.
\<close>

theorem conventional_ACTIVATE:
  assumes "\<not> isSmartMRAM cfg" and "busPacketType p = ACTIVATE"
    and "sized cfg s" and "rank p < NUM_RANKS cfg" and "bank p < NUM_BANKS cfg"
    and "outgoingCmdPacket s = None"
  shows "\<exists>s'. issuePopped cfg (Some p) s = Inr s' \<and>
     actpreEnergy s' ! rank p =
       actpreEnergy s ! rank p +
         ucast (((IDD0 cfg * tRC cfg) - ((IDD3N cfg * tRAS cfg) + (IDD2N cfg * (tRC cfg - tRAS cfg))))
                  * NUM_DEVICES cfg) \<and>
     nextActivate (bankStates s' ! rank p ! bank p) =
       max (currentClockCycle s + ucast (tRC cfg)) (nextActivate (bankStates s ! rank p ! bank p)) \<and>
     nextPrecharge (bankStates s' ! rank p ! bank p) =
       max (currentClockCycle s + ucast (tRAS cfg)) (nextPrecharge (bankStates s ! rank p ! bank p)) \<and>
     nextRead (bankStates s' ! rank p ! bank p) =
       max (currentClockCycle s + ucast (tRCD cfg - AL cfg)) (nextRead (bankStates s ! rank p ! bank p)) \<and>
     nextWrite (bankStates s' ! rank p ! bank p) =
       max (currentClockCycle s + ucast (tRCD cfg - AL cfg)) (nextWrite (bankStates s ! rank p ! bank p)) \<and>
     currentClockCycle s + ucast (tRC cfg) \<le> nextActivate (bankStates s' ! rank p ! bank p) \<and>
     currentClockCycle s + ucast (tRAS cfg) \<le> nextPrecharge (bankStates s' ! rank p ! bank p) \<and>
     currentClockCycle s + ucast (tRCD cfg - AL cfg) \<le> nextRead (bankStates s' ! rank p ! bank p) \<and>
     currentClockCycle s + ucast (tRCD cfg - AL cfg) \<le> nextWrite (bankStates s' ! rank p ! bank p)"
proof -
  let ?s' = "(issueActivate cfg p s)\<lparr>outgoingCmdPacket := Some p, cmdCyclesLeft := tCMD cfg\<rparr>"
  have run: "issuePopped cfg (Some p) s = Inr ?s'"
    using assms(2,6) by (simp add: issuePopped_ACTIVATE)
  have len: "rank p < length (actpreEnergy s)"
    using assms(3,4) by (simp add: sized_def)
  have en: "actpreEnergy ?s' ! rank p = actpreEnergy s ! rank p + ucast (activationEnergy cfg)"
    using assms(1) len by (simp add: issueActivate_fields nth_addAt)
  have bk: "bankStates ?s' ! rank p ! bank p =
      (bankStates s ! rank p ! bank p)\<lparr>currentBankState := RowActive, lastCommand := ACTIVATE,
         openRowAddress := row p,
         nextActivate := max (currentClockCycle s + ucast (tRC cfg))
                           (nextActivate (bankStates s ! rank p ! bank p)),
         nextPrecharge := max (currentClockCycle s + ucast (tRAS cfg))
                           (nextPrecharge (bankStates s ! rank p ! bank p)),
         nextRead := max (currentClockCycle s + ucast (tRCD cfg - AL cfg))
                           (nextRead (bankStates s ! rank p ! bank p)),
         nextWrite := max (currentClockCycle s + ucast (tRCD cfg - AL cfg))
                           (nextWrite (bankStates s ! rank p ! bank p))\<rparr>"
    using issueActivate_bank[OF assms(3,4,5)] assms(1) by (simp add: Let_def)
  show ?thesis
    unfolding run using en bk by (simp add: activationEnergy_def)
qed

theorem conventional_ACTIVATE_witness:
  "\<exists>s'. issuePopped (exampleConfig False) (Some (examplePacket ACTIVATE 0))
            (newController (exampleConfig False) idleBank) = Inr s' \<and>
        actpreEnergy s' ! 0 = 15360 \<and>
        nextActivate (bankStates s' ! 0 ! 0) = 34 \<and>
        nextPrecharge (bankStates s' ! 0 ! 0) = 24 \<and>
        nextRead (bankStates s' ! 0 ! 0) = 10 \<and>
        nextWrite (bankStates s' ! 0 ! 0) = 10"
proof -
  let ?C = "exampleConfig False" and ?P = "examplePacket ACTIVATE 0"
  let ?S = "newController (exampleConfig False) idleBank"
  have h1: "\<not> isSmartMRAM ?C" by (simp add: exampleConfig_def)
  have h2: "busPacketType ?P = ACTIVATE" by (simp add: examplePacket_def)
  have h4: "rank ?P < NUM_RANKS ?C" by (simp add: examplePacket_def exampleConfig_def)
  have h5: "bank ?P < NUM_BANKS ?C" by (simp add: examplePacket_def exampleConfig_def)
  have h6: "outgoingCmdPacket ?S = None" by (simp add: newController_def)
  have old: "actpreEnergy ?S ! 0 = 0" "bankStates ?S ! 0 ! 0 = idleBank"
    "currentClockCycle ?S = 0"
    by (simp_all add: newController_def exampleConfig_def)
  have ib: "nextActivate idleBank = 0" "nextPrecharge idleBank = 0" "nextRead idleBank = 0"
    "nextWrite idleBank = 0"
    by (simp_all add: idleBank_def)
  have cfg: "tRC ?C = 34" "tRAS ?C = 24" "tRCD ?C = 10" "AL ?C = 0" "IDD0 ?C = 100"
    "IDD3N ?C = 45" "IDD2N ?C = 40" "NUM_DEVICES ?C = 8" "rank ?P = 0" "bank ?P = 0"
    by (simp_all add: exampleConfig_def examplePacket_def)
  show ?thesis
    using conventional_ACTIVATE[OF h1 h2 example_sized h4 h5 h6]
    by (auto simp add: old cfg ib)
qed

text \<open>
  C2, as the code has it. SMART device: an ACTIVATE popped for bank \<open>(rank p, bank p)\<close>
  at cycle \<open>now\<close>, with the command bus free, is issued; the bank becomes
  \<open>RowActive\<close> on the packet's row, \<open>nextActivate\<close> becomes the maximum of its old
  value and \<open>now + tRRD\<close>, \<open>nextPrecharge\<close> is \<open>now\<close>, and \<open>nextRead\<close> and
  \<open>nextWrite\<close> become the maximum of \<open>now\<close> and their old value (no
  \<^verbatim>\<open>tRCD\<close> is added, but a later guard left by an earlier command is kept); every
  other bank of the rank gets \<open>nextActivate \<ge> now + tRRD\<close>.
\<close>

theorem smart_ACTIVATE:
  assumes "isSmartMRAM cfg" and "busPacketType p = ACTIVATE"
    and "sized cfg s" and "rank p < NUM_RANKS cfg" and "bank p < NUM_BANKS cfg"
    and "outgoingCmdPacket s = None"
  shows "\<exists>s'. issuePopped cfg (Some p) s = Inr s' \<and>
     currentBankState (bankStates s' ! rank p ! bank p) = RowActive \<and>
     openRowAddress (bankStates s' ! rank p ! bank p) = row p \<and>
     nextActivate (bankStates s' ! rank p ! bank p) =
       max (currentClockCycle s + ucast (tRRD cfg)) (nextActivate (bankStates s ! rank p ! bank p)) \<and>
     currentClockCycle s + ucast (tRRD cfg) \<le> nextActivate (bankStates s' ! rank p ! bank p) \<and>
     nextPrecharge (bankStates s' ! rank p ! bank p) = currentClockCycle s \<and>
     nextRead (bankStates s' ! rank p ! bank p) =
       max (currentClockCycle s) (nextRead (bankStates s ! rank p ! bank p)) \<and>
     nextWrite (bankStates s' ! rank p ! bank p) =
       max (currentClockCycle s) (nextWrite (bankStates s ! rank p ! bank p)) \<and>
     (\<forall>j<NUM_BANKS cfg. j \<noteq> bank p \<longrightarrow>
        currentClockCycle s + ucast (tRRD cfg) \<le> nextActivate (bankStates s' ! rank p ! j))"
proof -
  let ?s' = "(issueActivate cfg p s)\<lparr>outgoingCmdPacket := Some p, cmdCyclesLeft := tCMD cfg\<rparr>"
  have run: "issuePopped cfg (Some p) s = Inr ?s'"
    using assms(2,6) by (simp add: issuePopped_ACTIVATE)
  have bk: "bankStates ?s' ! rank p ! bank p =
      (bankStates s ! rank p ! bank p)\<lparr>currentBankState := RowActive, lastCommand := ACTIVATE,
         openRowAddress := row p,
         nextActivate := max (currentClockCycle s + ucast (tRRD cfg))
                           (nextActivate (bankStates s ! rank p ! bank p)),
         nextPrecharge := currentClockCycle s,
         nextRead := max (currentClockCycle s) (nextRead (bankStates s ! rank p ! bank p)),
         nextWrite := max (currentClockCycle s) (nextWrite (bankStates s ! rank p ! bank p))\<rparr>"
    using issueActivate_bank[OF assms(3,4,5)] assms(1) by (simp add: Let_def)
  have others: "\<forall>j<NUM_BANKS cfg. j \<noteq> bank p \<longrightarrow>
        currentClockCycle s + ucast (tRRD cfg) \<le> nextActivate (bankStates ?s' ! rank p ! j)"
    using issueActivate_other[OF assms(3,4)] by simp
  show ?thesis
    unfolding run using bk others by simp
qed

theorem smart_ACTIVATE_witness:
  "\<exists>s'. issuePopped (exampleConfig True) (Some (examplePacket ACTIVATE 0))
            (newController (exampleConfig True) idleBank) = Inr s' \<and>
        currentBankState (bankStates s' ! 0 ! 0) = RowActive \<and>
        openRowAddress (bankStates s' ! 0 ! 0) = 1 \<and>
        nextActivate (bankStates s' ! 0 ! 0) = 4 \<and>
        nextPrecharge (bankStates s' ! 0 ! 0) = 0 \<and>
        nextRead (bankStates s' ! 0 ! 0) = 0 \<and>
        nextWrite (bankStates s' ! 0 ! 0) = 0 \<and>
        4 \<le> nextActivate (bankStates s' ! 0 ! 1)"
proof -
  let ?C = "exampleConfig True" and ?P = "examplePacket ACTIVATE 0"
  let ?S = "newController (exampleConfig True) idleBank"
  have h1: "isSmartMRAM ?C" by (simp add: exampleConfig_def)
  have h2: "busPacketType ?P = ACTIVATE" by (simp add: examplePacket_def)
  have h4: "rank ?P < NUM_RANKS ?C" by (simp add: examplePacket_def exampleConfig_def)
  have h5: "bank ?P < NUM_BANKS ?C" by (simp add: examplePacket_def exampleConfig_def)
  have h6: "outgoingCmdPacket ?S = None" by (simp add: newController_def)
  have old: "bankStates ?S ! 0 ! 0 = idleBank" "currentClockCycle ?S = 0"
    by (simp_all add: newController_def exampleConfig_def)
  have ib: "nextActivate idleBank = 0" "nextPrecharge idleBank = 0" "nextRead idleBank = 0"
    "nextWrite idleBank = 0"
    by (simp_all add: idleBank_def)
  have cfg: "tRRD ?C = 4" "NUM_BANKS ?C = 2" "rank ?P = 0" "bank ?P = 0" "row ?P = 1"
    by (simp_all add: exampleConfig_def examplePacket_def)
  show ?thesis
    using smart_ACTIVATE[OF h1 h2 example_sized h4 h5 h6]
    by (auto simp add: old cfg ib)
qed

text \<open>
  The guards are not always \<open>now\<close>: after an ACTIVATE (cycle 0) and a READ (cycle 3)
  to bank 0, the READ has moved \<open>nextRead\<close> of every bank of the rank to cycle 7; the
  ACTIVATE to bank 1 issued in cycle 4 leaves \<open>nextRead\<close> of bank 1 at 7, not at 4.
\<close>

theorem smart_ACTIVATE_counterexample:
  "isSmartMRAM (exampleConfig True) \<and> \<not> isl smartAfterRead \<and>
   currentClockCycle (projr smartAfterRead) = 4 \<and>
   \<not> isl (update (exampleConfig True) (exampleEnv (Some (examplePacket ACTIVATE 1)))
            (projr smartAfterRead)) \<and>
   nextRead (bankStates (projr (update (exampleConfig True)
       (exampleEnv (Some (examplePacket ACTIVATE 1))) (projr smartAfterRead))) ! 0 ! 1) = 7"
  by code_simp

subsection \<open>Activation energy under SMART\<close>

lemma issueWrite_actpreEnergy: "actpreEnergy (issueWrite cfg p s) = actpreEnergy s"
  by (simp add: issueWrite_def Let_def)

lemma issueRead_actpreEnergy:
  "actpreEnergy (issueRead cfg p s) =
     (if isSmartMRAM cfg \<and> lastCommand (bankStates s ! rank p ! bank p) = ACTIVATE
      then addAt (rank p) (ucast (activationEnergy cfg)) (actpreEnergy s)
      else actpreEnergy s)"
  by (simp add: issueRead_def Let_def)

lemma smart_WRITE_credits_no_activation_energy:
  assumes "busPacketType p = WRITE \<or> busPacketType p = WRITE_P"
    and "issuePopped cfg (Some p) s = Inr s'"
  shows "actpreEnergy s' = actpreEnergy s"
  using assms
  by (auto simp: issuePopped_def switchCommand_def pushWriteData_def issueWrite_actpreEnergy
      split: if_splits)

lemma smart_READ_credits_activation_energy:
  assumes "isSmartMRAM cfg" and "busPacketType p = READ \<or> busPacketType p = READ_P"
    and "lastCommand (bankStates s ! rank p ! bank p) = ACTIVATE"
    and "rank p < length (actpreEnergy s)"
    and "issuePopped cfg (Some p) s = Inr s'"
  shows "actpreEnergy s' ! rank p = actpreEnergy s ! rank p + ucast (activationEnergy cfg)"
  using assms
  by (auto simp: issuePopped_def switchCommand_def pushWriteData_def issueRead_actpreEnergy
      nth_addAt split: if_splits)

lemma smart_ACTIVATE_credits_no_activation_energy:
  assumes "isSmartMRAM cfg" and "busPacketType p = ACTIVATE"
    and "issuePopped cfg (Some p) s = Inr s'"
  shows "actpreEnergy s' = actpreEnergy s"
  using assms
  by (auto simp: issuePopped_ACTIVATE issueActivate_fields split: if_splits)

text \<open>
  C1. Under SMART an ACTIVATE credits nothing and the first READ after it credits the
  activation energy (the lemmas above), but the WRITE handler never touches
  \<^verbatim>\<open>actpreEnergy\<close>: with bank 0 just activated (its \<^verbatim>\<open>lastCommand\<close> is
  ACTIVATE), a WRITE issued in the next cycle leaves \<^verbatim>\<open>actpreEnergy[0]\<close> at 0,
  where a READ in its place adds 15360.
\<close>

theorem smart_WRITE_after_ACTIVATE_energy:
  "isSmartMRAM (exampleConfig True) \<and> \<not> isl smartAfterActivate \<and>
   lastCommand (bankStates (projr smartAfterActivate) ! 0 ! 0) = ACTIVATE \<and>
   actpreEnergy (projr smartAfterActivate) ! 0 = 0 \<and>
   actpreEnergy (projr (update (exampleConfig True) (exampleEnv (Some (examplePacket WRITE 0)))
       (projr smartAfterActivate))) ! 0 = 0 \<and>
   actpreEnergy (projr (update (exampleConfig True) (exampleEnv (Some (examplePacket READ 0)))
       (projr smartAfterActivate))) ! 0 = 15360"
  by code_simp

subsection \<open>PRECHARGE and auto-precharge\<close>

lemma issuePrecharge_fields:
  "outgoingCmdPacket (issuePrecharge cfg p s) = outgoingCmdPacket s"
  "currentClockCycle (issuePrecharge cfg p s) = currentClockCycle s"
  by (simp_all add: issuePrecharge_def Let_def)












subsection \<open>What each phase of update leaves alone\<close>

lemma updateBankStates_frame:
  "transactionQueue (updateBankStates cfg s) = transactionQueue s"
  "refreshCountdown (updateBankStates cfg s) = refreshCountdown s"
  "refreshRank (updateBankStates cfg s) = refreshRank s"
  "refreshWaiting (updateBankStates cfg s) = refreshWaiting s"
  "powerDown (updateBankStates cfg s) = powerDown s"
  "writeDataToSend (updateBankStates cfg s) = writeDataToSend s"
  "writeDataCountdown (updateBankStates cfg s) = writeDataCountdown s"
  "outgoingDataPacket (updateBankStates cfg s) = outgoingDataPacket s"
  "dataCyclesLeft (updateBankStates cfg s) = dataCyclesLeft s"
  "backgroundEnergy (updateBankStates cfg s) = backgroundEnergy s"
  "burstEnergy (updateBankStates cfg s) = burstEnergy s"
  "actpreEnergy (updateBankStates cfg s) = actpreEnergy s"
  "refreshEnergy (updateBankStates cfg s) = refreshEnergy s"
  "returnTransaction (updateBankStates cfg s) = returnTransaction s"
  "events (updateBankStates cfg s) = events s"
  "currentClockCycle (updateBankStates cfg s) = currentClockCycle s"
  by (simp_all add: updateBankStates_def)

lemma advanceCmdBus_frame:
  "transactionQueue (advanceCmdBus env s) = transactionQueue s"
  "refreshCountdown (advanceCmdBus env s) = refreshCountdown s"
  "refreshRank (advanceCmdBus env s) = refreshRank s"
  "powerDown (advanceCmdBus env s) = powerDown s"
  "writeDataToSend (advanceCmdBus env s) = writeDataToSend s"
  "writeDataCountdown (advanceCmdBus env s) = writeDataCountdown s"
  "outgoingDataPacket (advanceCmdBus env s) = outgoingDataPacket s"
  "dataCyclesLeft (advanceCmdBus env s) = dataCyclesLeft s"
  "backgroundEnergy (advanceCmdBus env s) = backgroundEnergy s"
  "burstEnergy (advanceCmdBus env s) = burstEnergy s"
  "actpreEnergy (advanceCmdBus env s) = actpreEnergy s"
  "refreshEnergy (advanceCmdBus env s) = refreshEnergy s"
  "returnTransaction (advanceCmdBus env s) = returnTransaction s"
  "currentClockCycle (advanceCmdBus env s) = currentClockCycle s"
  "bankStates (advanceCmdBus env s) = bankStates s"
  by (simp_all add: advanceCmdBus_def Let_def split: option.splits)

lemma advanceDataBus_frame:
  "transactionQueue (advanceDataBus env s) = transactionQueue s"
  "refreshCountdown (advanceDataBus env s) = refreshCountdown s"
  "refreshRank (advanceDataBus env s) = refreshRank s"
  "powerDown (advanceDataBus env s) = powerDown s"
  "writeDataToSend (advanceDataBus env s) = writeDataToSend s"
  "writeDataCountdown (advanceDataBus env s) = writeDataCountdown s"
  "backgroundEnergy (advanceDataBus env s) = backgroundEnergy s"
  "burstEnergy (advanceDataBus env s) = burstEnergy s"
  "actpreEnergy (advanceDataBus env s) = actpreEnergy s"
  "refreshEnergy (advanceDataBus env s) = refreshEnergy s"
  "returnTransaction (advanceDataBus env s) = returnTransaction s"
  "currentClockCycle (advanceDataBus env s) = currentClockCycle s"
  "bankStates (advanceDataBus env s) = bankStates s"
  by (simp_all add: advanceDataBus_def Let_def split: option.splits)

lemma drainWriteData_frame:
  assumes "drainWriteData cfg s = Inr s'"
  shows "transactionQueue s' = transactionQueue s"
    "refreshCountdown s' = refreshCountdown s"
    "refreshRank s' = refreshRank s"
    "refreshWaiting s' = refreshWaiting s"
    "powerDown s' = powerDown s"
    "backgroundEnergy s' = backgroundEnergy s"
    "burstEnergy s' = burstEnergy s"
    "actpreEnergy s' = actpreEnergy s"
    "refreshEnergy s' = refreshEnergy s"
    "returnTransaction s' = returnTransaction s"
    "events s' = events s"
    "currentClockCycle s' = currentClockCycle s"
    "bankStates s' = bankStates s"
  using assms
  by (auto simp: drainWriteData_def split: if_splits list.splits)

lemma refreshGate_frame:
  "transactionQueue (refreshGate cfg s) = transactionQueue s"
  "powerDown (refreshGate cfg s) = powerDown s"
  "writeDataToSend (refreshGate cfg s) = writeDataToSend s"
  "writeDataCountdown (refreshGate cfg s) = writeDataCountdown s"
  "outgoingDataPacket (refreshGate cfg s) = outgoingDataPacket s"
  "dataCyclesLeft (refreshGate cfg s) = dataCyclesLeft s"
  "outgoingCmdPacket (refreshGate cfg s) = outgoingCmdPacket s"
  "backgroundEnergy (refreshGate cfg s) = backgroundEnergy s"
  "burstEnergy (refreshGate cfg s) = burstEnergy s"
  "actpreEnergy (refreshGate cfg s) = actpreEnergy s"
  "refreshEnergy (refreshGate cfg s) = refreshEnergy s"
  "returnTransaction (refreshGate cfg s) = returnTransaction s"
  "currentClockCycle (refreshGate cfg s) = currentClockCycle s"
  "bankStates (refreshGate cfg s) = bankStates s"
  by (simp_all add: refreshGate_def Let_def)

lemma issueRead_frame:
  "transactionQueue (issueRead cfg p s) = transactionQueue s"
  "refreshCountdown (issueRead cfg p s) = refreshCountdown s"
  "refreshRank (issueRead cfg p s) = refreshRank s"
  "refreshWaiting (issueRead cfg p s) = refreshWaiting s"
  "powerDown (issueRead cfg p s) = powerDown s"
  "writeDataToSend (issueRead cfg p s) = writeDataToSend s"
  "writeDataCountdown (issueRead cfg p s) = writeDataCountdown s"
  "outgoingDataPacket (issueRead cfg p s) = outgoingDataPacket s"
  "dataCyclesLeft (issueRead cfg p s) = dataCyclesLeft s"
  "outgoingCmdPacket (issueRead cfg p s) = outgoingCmdPacket s"
  "backgroundEnergy (issueRead cfg p s) = backgroundEnergy s"
  "refreshEnergy (issueRead cfg p s) = refreshEnergy s"
  "returnTransaction (issueRead cfg p s) = returnTransaction s"
  "events (issueRead cfg p s) = events s"
  "currentClockCycle (issueRead cfg p s) = currentClockCycle s"
  by (simp_all add: issueRead_def Let_def)

lemma issueWrite_frame:
  "transactionQueue (issueWrite cfg p s) = transactionQueue s"
  "refreshCountdown (issueWrite cfg p s) = refreshCountdown s"
  "refreshRank (issueWrite cfg p s) = refreshRank s"
  "refreshWaiting (issueWrite cfg p s) = refreshWaiting s"
  "powerDown (issueWrite cfg p s) = powerDown s"
  "writeDataToSend (issueWrite cfg p s) = writeDataToSend s"
  "writeDataCountdown (issueWrite cfg p s) = writeDataCountdown s"
  "outgoingDataPacket (issueWrite cfg p s) = outgoingDataPacket s"
  "dataCyclesLeft (issueWrite cfg p s) = dataCyclesLeft s"
  "outgoingCmdPacket (issueWrite cfg p s) = outgoingCmdPacket s"
  "backgroundEnergy (issueWrite cfg p s) = backgroundEnergy s"
  "refreshEnergy (issueWrite cfg p s) = refreshEnergy s"
  "returnTransaction (issueWrite cfg p s) = returnTransaction s"
  "events (issueWrite cfg p s) = events s"
  "currentClockCycle (issueWrite cfg p s) = currentClockCycle s"
  by (simp_all add: issueWrite_def Let_def)

lemma issueActivate_frame:
  "transactionQueue (issueActivate cfg p s) = transactionQueue s"
  "refreshCountdown (issueActivate cfg p s) = refreshCountdown s"
  "refreshRank (issueActivate cfg p s) = refreshRank s"
  "refreshWaiting (issueActivate cfg p s) = refreshWaiting s"
  "powerDown (issueActivate cfg p s) = powerDown s"
  "writeDataToSend (issueActivate cfg p s) = writeDataToSend s"
  "writeDataCountdown (issueActivate cfg p s) = writeDataCountdown s"
  "outgoingDataPacket (issueActivate cfg p s) = outgoingDataPacket s"
  "dataCyclesLeft (issueActivate cfg p s) = dataCyclesLeft s"
  "backgroundEnergy (issueActivate cfg p s) = backgroundEnergy s"
  "burstEnergy (issueActivate cfg p s) = burstEnergy s"
  "refreshEnergy (issueActivate cfg p s) = refreshEnergy s"
  "returnTransaction (issueActivate cfg p s) = returnTransaction s"
  "events (issueActivate cfg p s) = events s"
  by (simp_all add: issueActivate_def Let_def)

lemma issuePrecharge_frame:
  "transactionQueue (issuePrecharge cfg p s) = transactionQueue s"
  "refreshCountdown (issuePrecharge cfg p s) = refreshCountdown s"
  "refreshRank (issuePrecharge cfg p s) = refreshRank s"
  "refreshWaiting (issuePrecharge cfg p s) = refreshWaiting s"
  "powerDown (issuePrecharge cfg p s) = powerDown s"
  "writeDataToSend (issuePrecharge cfg p s) = writeDataToSend s"
  "writeDataCountdown (issuePrecharge cfg p s) = writeDataCountdown s"
  "outgoingDataPacket (issuePrecharge cfg p s) = outgoingDataPacket s"
  "dataCyclesLeft (issuePrecharge cfg p s) = dataCyclesLeft s"
  "backgroundEnergy (issuePrecharge cfg p s) = backgroundEnergy s"
  "burstEnergy (issuePrecharge cfg p s) = burstEnergy s"
  "actpreEnergy (issuePrecharge cfg p s) = actpreEnergy s"
  "refreshEnergy (issuePrecharge cfg p s) = refreshEnergy s"
  "returnTransaction (issuePrecharge cfg p s) = returnTransaction s"
  "events (issuePrecharge cfg p s) = events s"
  by (simp_all add: issuePrecharge_def Let_def)

lemma issueRefresh_frame:
  "transactionQueue (issueRefresh cfg p s) = transactionQueue s"
  "refreshCountdown (issueRefresh cfg p s) = refreshCountdown s"
  "refreshRank (issueRefresh cfg p s) = refreshRank s"
  "refreshWaiting (issueRefresh cfg p s) = refreshWaiting s"
  "powerDown (issueRefresh cfg p s) = powerDown s"
  "writeDataToSend (issueRefresh cfg p s) = writeDataToSend s"
  "writeDataCountdown (issueRefresh cfg p s) = writeDataCountdown s"
  "outgoingDataPacket (issueRefresh cfg p s) = outgoingDataPacket s"
  "dataCyclesLeft (issueRefresh cfg p s) = dataCyclesLeft s"
  "outgoingCmdPacket (issueRefresh cfg p s) = outgoingCmdPacket s"
  "backgroundEnergy (issueRefresh cfg p s) = backgroundEnergy s"
  "burstEnergy (issueRefresh cfg p s) = burstEnergy s"
  "actpreEnergy (issueRefresh cfg p s) = actpreEnergy s"
  "returnTransaction (issueRefresh cfg p s) = returnTransaction s"
  "events (issueRefresh cfg p s) = events s"
  "currentClockCycle (issueRefresh cfg p s) = currentClockCycle s"
  by (simp_all add: issueRefresh_def Let_def)

lemma pushWriteData_frame:
  "transactionQueue (pushWriteData cfg p s) = transactionQueue s"
  "refreshCountdown (pushWriteData cfg p s) = refreshCountdown s"
  "refreshRank (pushWriteData cfg p s) = refreshRank s"
  "refreshWaiting (pushWriteData cfg p s) = refreshWaiting s"
  "powerDown (pushWriteData cfg p s) = powerDown s"
  "outgoingDataPacket (pushWriteData cfg p s) = outgoingDataPacket s"
  "dataCyclesLeft (pushWriteData cfg p s) = dataCyclesLeft s"
  "outgoingCmdPacket (pushWriteData cfg p s) = outgoingCmdPacket s"
  "backgroundEnergy (pushWriteData cfg p s) = backgroundEnergy s"
  "burstEnergy (pushWriteData cfg p s) = burstEnergy s"
  "actpreEnergy (pushWriteData cfg p s) = actpreEnergy s"
  "refreshEnergy (pushWriteData cfg p s) = refreshEnergy s"
  "returnTransaction (pushWriteData cfg p s) = returnTransaction s"
  "events (pushWriteData cfg p s) = events s"
  "currentClockCycle (pushWriteData cfg p s) = currentClockCycle s"
  "bankStates (pushWriteData cfg p s) = bankStates s"
  by (simp_all add: pushWriteData_def)

lemmas issue_frames = issueRead_frame issueWrite_frame issueActivate_frame issueActivate_fields
  issuePrecharge_frame issuePrecharge_fields issueRefresh_frame pushWriteData_frame

lemma switchCommand_cases:
  assumes "switchCommand cfg p s = Inr s2"
  shows "s2 = issueRead cfg p s \<or> s2 = issueWrite cfg p s \<or> s2 = issueActivate cfg p s \<or>
         s2 = issuePrecharge cfg p s \<or> s2 = issueRefresh cfg p s"
  using assms by (auto simp: switchCommand_def split: BusPacketType.splits)

lemma issuePopped_cases:
  assumes "issuePopped cfg pk s = Inr s'"
  shows "s' = s \<or> (\<exists>p s2. pk = Some p \<and> switchCommand cfg p (pushWriteData cfg p s) = Inr s2 \<and>
           s' = s2\<lparr>outgoingCmdPacket := Some p, cmdCyclesLeft := tCMD cfg\<rparr>)"
  using assms
  by (auto simp: issuePopped_def split: option.splits sum.splits if_splits)

lemma issuePopped_frame:
  assumes "issuePopped cfg pk s = Inr s'"
  shows "transactionQueue s' = transactionQueue s"
    "refreshCountdown s' = refreshCountdown s"
    "refreshRank s' = refreshRank s"
    "refreshWaiting s' = refreshWaiting s"
    "powerDown s' = powerDown s"
    "outgoingDataPacket s' = outgoingDataPacket s"
    "dataCyclesLeft s' = dataCyclesLeft s"
    "backgroundEnergy s' = backgroundEnergy s"
    "returnTransaction s' = returnTransaction s"
    "events s' = events s"
  using issuePopped_cases[OF assms] switchCommand_cases
  by (fastforce simp: issue_frames)+

lemma fold_frame:
  assumes "\<And>i s. f (g i s) = f s"
  shows "f (fold g xs s) = f s"
  by (induction xs arbitrary: s) (simp_all add: assms)

lemma admitScan_length:
  "admitScan env pre q = Some (q', t) \<Longrightarrow> Suc (length q') = length pre + length q"
proof (induction q arbitrary: pre)
  case Nil
  then show ?case by simp
next
  case (Cons a q)
  show ?case
  proof (cases "admitScan env (pre @ [a]) q = Some (q', t)")
    case True
    from Cons.IH[OF True] show ?thesis by simp
  next
    case False
    with Cons.prems show ?thesis by (auto split: prod.splits if_splits)
  qed
qed

lemma admitTransaction_frame:
  "refreshCountdown (admitTransaction env s) = refreshCountdown s"
  "refreshRank (admitTransaction env s) = refreshRank s"
  "refreshWaiting (admitTransaction env s) = refreshWaiting s"
  "powerDown (admitTransaction env s) = powerDown s"
  "writeDataToSend (admitTransaction env s) = writeDataToSend s"
  "writeDataCountdown (admitTransaction env s) = writeDataCountdown s"
  "outgoingDataPacket (admitTransaction env s) = outgoingDataPacket s"
  "dataCyclesLeft (admitTransaction env s) = dataCyclesLeft s"
  "backgroundEnergy (admitTransaction env s) = backgroundEnergy s"
  "burstEnergy (admitTransaction env s) = burstEnergy s"
  "actpreEnergy (admitTransaction env s) = actpreEnergy s"
  "refreshEnergy (admitTransaction env s) = refreshEnergy s"
  "returnTransaction (admitTransaction env s) = returnTransaction s"
  "currentClockCycle (admitTransaction env s) = currentClockCycle s"
  "bankStates (admitTransaction env s) = bankStates s"
  by (simp_all add: admitTransaction_def Let_def split: option.splits prod.splits)

lemma admitTransaction_queue:
  "length (transactionQueue (admitTransaction env s)) \<le> length (transactionQueue s)"
  by (auto simp: admitTransaction_def Let_def dest: admitScan_length split: option.splits prod.splits)

lemma lowPowerRank_frame:
  "transactionQueue (lowPowerRank cfg env i s) = transactionQueue s"
  "refreshCountdown (lowPowerRank cfg env i s) = refreshCountdown s"
  "refreshRank (lowPowerRank cfg env i s) = refreshRank s"
  "refreshWaiting (lowPowerRank cfg env i s) = refreshWaiting s"
  "writeDataToSend (lowPowerRank cfg env i s) = writeDataToSend s"
  "writeDataCountdown (lowPowerRank cfg env i s) = writeDataCountdown s"
  "outgoingDataPacket (lowPowerRank cfg env i s) = outgoingDataPacket s"
  "dataCyclesLeft (lowPowerRank cfg env i s) = dataCyclesLeft s"
  "backgroundEnergy (lowPowerRank cfg env i s) = backgroundEnergy s"
  "burstEnergy (lowPowerRank cfg env i s) = burstEnergy s"
  "actpreEnergy (lowPowerRank cfg env i s) = actpreEnergy s"
  "refreshEnergy (lowPowerRank cfg env i s) = refreshEnergy s"
  "returnTransaction (lowPowerRank cfg env i s) = returnTransaction s"
  "currentClockCycle (lowPowerRank cfg env i s) = currentClockCycle s"
  by (simp_all add: lowPowerRank_def)

lemma backgroundRank_frame:
  "transactionQueue (backgroundRank cfg i s) = transactionQueue s"
  "refreshCountdown (backgroundRank cfg i s) = refreshCountdown s"
  "refreshRank (backgroundRank cfg i s) = refreshRank s"
  "refreshWaiting (backgroundRank cfg i s) = refreshWaiting s"
  "powerDown (backgroundRank cfg i s) = powerDown s"
  "writeDataToSend (backgroundRank cfg i s) = writeDataToSend s"
  "writeDataCountdown (backgroundRank cfg i s) = writeDataCountdown s"
  "outgoingDataPacket (backgroundRank cfg i s) = outgoingDataPacket s"
  "dataCyclesLeft (backgroundRank cfg i s) = dataCyclesLeft s"
  "burstEnergy (backgroundRank cfg i s) = burstEnergy s"
  "actpreEnergy (backgroundRank cfg i s) = actpreEnergy s"
  "refreshEnergy (backgroundRank cfg i s) = refreshEnergy s"
  "returnTransaction (backgroundRank cfg i s) = returnTransaction s"
  "events (backgroundRank cfg i s) = events s"
  "currentClockCycle (backgroundRank cfg i s) = currentClockCycle s"
  "bankStates (backgroundRank cfg i s) = bankStates s"
  by (simp_all add: backgroundRank_def)

lemma calculatePower_frame:
  "transactionQueue (calculatePower cfg env s) = transactionQueue s"
  "refreshCountdown (calculatePower cfg env s) = refreshCountdown s"
  "refreshRank (calculatePower cfg env s) = refreshRank s"
  "refreshWaiting (calculatePower cfg env s) = refreshWaiting s"
  "writeDataToSend (calculatePower cfg env s) = writeDataToSend s"
  "writeDataCountdown (calculatePower cfg env s) = writeDataCountdown s"
  "outgoingDataPacket (calculatePower cfg env s) = outgoingDataPacket s"
  "dataCyclesLeft (calculatePower cfg env s) = dataCyclesLeft s"
  "burstEnergy (calculatePower cfg env s) = burstEnergy s"
  "actpreEnergy (calculatePower cfg env s) = actpreEnergy s"
  "refreshEnergy (calculatePower cfg env s) = refreshEnergy s"
  "returnTransaction (calculatePower cfg env s) = returnTransaction s"
  "currentClockCycle (calculatePower cfg env s) = currentClockCycle s"
  unfolding calculatePower_def
  by (rule fold_frame, simp add: powerRank_def lowPowerRank_frame backgroundRank_frame)+

lemma returnPath_frame:
  assumes "returnPath cfg env s = Inr s'"
  shows "transactionQueue s' = transactionQueue s"
    "refreshCountdown s' = refreshCountdown s"
    "refreshRank s' = refreshRank s"
    "refreshWaiting s' = refreshWaiting s"
    "powerDown s' = powerDown s"
    "writeDataToSend s' = writeDataToSend s"
    "writeDataCountdown s' = writeDataCountdown s"
    "outgoingDataPacket s' = outgoingDataPacket s"
    "dataCyclesLeft s' = dataCyclesLeft s"
    "backgroundEnergy s' = backgroundEnergy s"
    "burstEnergy s' = burstEnergy s"
    "actpreEnergy s' = actpreEnergy s"
    "refreshEnergy s' = refreshEnergy s"
    "currentClockCycle s' = currentClockCycle s"
    "bankStates s' = bankStates s"
  using assms
  by (auto simp: returnPath_def insertHistogram_def Let_def
      split: list.splits option.splits prod.splits)

lemma finish_frame:
  "transactionQueue (stepCommandQueue (decrementRefresh s)) = transactionQueue s"
  "refreshRank (stepCommandQueue (decrementRefresh s)) = refreshRank s"
  "refreshWaiting (stepCommandQueue (decrementRefresh s)) = refreshWaiting s"
  "refreshCountdown (stepCommandQueue (decrementRefresh s)) = map (\<lambda>c. c - 1) (refreshCountdown s)"
  "powerDown (stepCommandQueue (decrementRefresh s)) = powerDown s"
  "writeDataToSend (stepCommandQueue (decrementRefresh s)) = writeDataToSend s"
  "writeDataCountdown (stepCommandQueue (decrementRefresh s)) = writeDataCountdown s"
  "outgoingDataPacket (stepCommandQueue (decrementRefresh s)) = outgoingDataPacket s"
  "dataCyclesLeft (stepCommandQueue (decrementRefresh s)) = dataCyclesLeft s"
  "backgroundEnergy (stepCommandQueue (decrementRefresh s)) = backgroundEnergy s"
  "burstEnergy (stepCommandQueue (decrementRefresh s)) = burstEnergy s"
  "actpreEnergy (stepCommandQueue (decrementRefresh s)) = actpreEnergy s"
  "refreshEnergy (stepCommandQueue (decrementRefresh s)) = refreshEnergy s"
  "returnTransaction (stepCommandQueue (decrementRefresh s)) = returnTransaction s"
  "events (stepCommandQueue (decrementRefresh s)) = events s @ [CommandQueueStep]"
  "currentClockCycle (stepCommandQueue (decrementRefresh s)) = currentClockCycle s"
  "bankStates (stepCommandQueue (decrementRefresh s)) = bankStates s"
  by (simp_all add: stepCommandQueue_def decrementRefresh_def)

text \<open>The phases of a successful update, one after the other.\<close>

lemma update_phases:
  assumes "update cfg env s = Inr s'"
  obtains s2 s3 s4 where
    "drainWriteData cfg (advanceDataBus env (advanceCmdBus env (updateBankStates cfg s))) = Inr s2"
    "issuePopped cfg (popped env) (refreshGate cfg s2) = Inr s3"
    "returnPath cfg env (calculatePower cfg env (admitTransaction env s3)) = Inr s4"
    "s' = stepCommandQueue (decrementRefresh s4)"
  using assms
  by (auto simp: update_def gateAndIssue_def admitAndReturn_def finishUpdate_def bindE_def
      split: sum.splits)

lemma update_transactionQueue:
  assumes "update cfg env s = Inr s'"
  shows "length (transactionQueue s') \<le> length (transactionQueue s)"
proof -
  from assms obtain s2 s3 s4 where
    p: "drainWriteData cfg (advanceDataBus env (advanceCmdBus env (updateBankStates cfg s))) = Inr s2"
    "issuePopped cfg (popped env) (refreshGate cfg s2) = Inr s3"
    "returnPath cfg env (calculatePower cfg env (admitTransaction env s3)) = Inr s4"
    "s' = stepCommandQueue (decrementRefresh s4)"
    by (rule update_phases)
  have "transactionQueue s3 = transactionQueue s"
    using drainWriteData_frame(1)[OF p(1)] issuePopped_frame(1)[OF p(2)]
    by (simp add: refreshGate_frame advanceDataBus_frame advanceCmdBus_frame updateBankStates_frame)
  moreover have "transactionQueue s' = transactionQueue (admitTransaction env s3)"
    using returnPath_frame(1)[OF p(3)] p(4)
    by (simp add: finish_frame calculatePower_frame)
  ultimately show ?thesis
    using admitTransaction_queue[of env s3] by simp
qed

lemma resetBank_frame:
  "transactionQueue (resetBank cfg i j s) = transactionQueue s"
  "refreshCountdown (resetBank cfg i j s) = refreshCountdown s"
  "refreshRank (resetBank cfg i j s) = refreshRank s"
  "backgroundEnergy (resetBank cfg i j s) = backgroundEnergy s"
  "burstEnergy (resetBank cfg i j s) = burstEnergy s"
  "actpreEnergy (resetBank cfg i j s) = actpreEnergy s"
  "refreshEnergy (resetBank cfg i j s) = refreshEnergy s"
  by (simp_all add: resetBank_def Let_def)

lemma resetRank_frame:
  "transactionQueue (resetRank cfg i s) = transactionQueue s"
  "refreshCountdown (resetRank cfg i s) = refreshCountdown s"
  "refreshRank (resetRank cfg i s) = refreshRank s"
  by (simp_all add: resetRank_def Let_def fold_frame resetBank_frame)

lemma resetStats_frame:
  "transactionQueue (resetStats cfg s) = transactionQueue s"
  "refreshCountdown (resetStats cfg s) = refreshCountdown s"
  "refreshRank (resetStats cfg s) = refreshRank s"
  by (simp_all add: resetStats_def Let_def fold_frame resetRank_frame)

lemma tallyBank_frame:
  "transactionQueue (tallyBank cfg i j s) = transactionQueue s"
  "refreshCountdown (tallyBank cfg i j s) = refreshCountdown s"
  "refreshRank (tallyBank cfg i j s) = refreshRank s"
  "backgroundEnergy (tallyBank cfg i j s) = backgroundEnergy s"
  "burstEnergy (tallyBank cfg i j s) = burstEnergy s"
  "actpreEnergy (tallyBank cfg i j s) = actpreEnergy s"
  "refreshEnergy (tallyBank cfg i j s) = refreshEnergy s"
  by (simp_all add: tallyBank_def)

lemma tallyRank_frame:
  "transactionQueue (tallyRank cfg i s) = transactionQueue s"
  "refreshCountdown (tallyRank cfg i s) = refreshCountdown s"
  "refreshRank (tallyRank cfg i s) = refreshRank s"
  "backgroundEnergy (tallyRank cfg i s) = backgroundEnergy s"
  "burstEnergy (tallyRank cfg i s) = burstEnergy s"
  "actpreEnergy (tallyRank cfg i s) = actpreEnergy s"
  "refreshEnergy (tallyRank cfg i s) = refreshEnergy s"
  by (simp_all add: tallyRank_def fold_frame tallyBank_frame)

lemma printStats_frame:
  "transactionQueue (printStats cfg s) = transactionQueue s"
  "refreshCountdown (printStats cfg s) = refreshCountdown s"
  "refreshRank (printStats cfg s) = refreshRank s"
  by (simp_all add: printStats_def resetStats_frame fold_frame tallyRank_frame)

lemma receiveFromBus_frame:
  assumes "receiveFromBus cfg p s = Inr s'"
  shows "transactionQueue s' = transactionQueue s"
    "refreshCountdown s' = refreshCountdown s"
    "refreshRank s' = refreshRank s"
  using assms by (auto simp: receiveFromBus_def split: if_splits)

subsection \<open>The transaction queue\<close>

lemma addTransaction_queue_bound:
  assumes "length (transactionQueue s) \<le> TRANS_QUEUE_DEPTH cfg"
  shows "length (transactionQueue (snd (addTransaction cfg t s))) \<le> TRANS_QUEUE_DEPTH cfg"
  using assms by (simp add: addTransaction_def WillAcceptTransaction_def)

lemma reachable_queue_bound:
  "reachable cfg s \<Longrightarrow> length (transactionQueue s) \<le> TRANS_QUEUE_DEPTH cfg"
proof (induction rule: reachable.induct)
  case (constructed b0)
  then show ?case by (simp add: newController_def)
next
  case (added s t)
  show ?case by (rule addTransaction_queue_bound[OF added.IH])
next
  case (updated s env s')
  then show ?case using update_transactionQueue[of cfg env s s'] by simp
next
  case (received s p s')
  then show ?case using receiveFromBus_frame(1)[of cfg p s s'] by simp
next
  case (ticked s)
  then show ?case by (simp add: tick_def)
next
  case (stats_reset s)
  then show ?case by (simp add: resetStats_frame)
next
  case (stats_printed s)
  then show ?case by (simp add: printStats_frame)
qed

text \<open>
  C5. \<^verbatim>\<open>addTransaction\<close> returns false and changes nothing when the queue holds
  \<^verbatim>\<open>TRANS_QUEUE_DEPTH\<close> transactions (or more); otherwise it stamps
  \<^verbatim>\<open>timeAdded\<close> with the current cycle, appends the transaction and returns true.
  In every reachable state the queue holds at most \<^verbatim>\<open>TRANS_QUEUE_DEPTH\<close>
  transactions.
\<close>

theorem addTransaction_backpressure:
  "(TRANS_QUEUE_DEPTH cfg \<le> length (transactionQueue s) \<longrightarrow>
      addTransaction cfg t s = (False, s)) \<and>
   (length (transactionQueue s) < TRANS_QUEUE_DEPTH cfg \<longrightarrow>
      addTransaction cfg t s =
        (True, s\<lparr>transactionQueue :=
                   transactionQueue s @ [t\<lparr>timeAdded := currentClockCycle s\<rparr>]\<rparr>)) \<and>
   (reachable cfg s \<longrightarrow> length (transactionQueue s) \<le> TRANS_QUEUE_DEPTH cfg)"
  using reachable_queue_bound[of cfg s]
  by (auto simp: addTransaction_def WillAcceptTransaction_def)

theorem addTransaction_backpressure_witness:
  "fst (addTransaction (exampleConfig False) exampleTransaction
          (newController (exampleConfig False) idleBank)) \<and>
   transactionQueue (snd (addTransaction (exampleConfig False) exampleTransaction
          (newController (exampleConfig False) idleBank))) = [exampleTransaction] \<and>
   addTransaction (exampleConfig False) exampleTransaction fullQueueState = (False, fullQueueState) \<and>
   length (transactionQueue fullQueueState) \<le> TRANS_QUEUE_DEPTH (exampleConfig False)"
proof -
  let ?C = "exampleConfig False" and ?S = "newController (exampleConfig False) idleBank"
  have r0: "reachable ?C ?S" by (rule reachable.constructed)
  have r2: "reachable ?C fullQueueState"
    unfolding fullQueueState_def by (intro reachable.added reachable.constructed)
  have l0: "length (transactionQueue ?S) < TRANS_QUEUE_DEPTH ?C"
    by (simp add: newController_def exampleConfig_def)
  have l2: "TRANS_QUEUE_DEPTH ?C \<le> length (transactionQueue fullQueueState)"
    by (simp add: fullQueueState_def addTransaction_def WillAcceptTransaction_def
        newController_def exampleConfig_def)
  have q0: "transactionQueue ?S = []" "currentClockCycle ?S = 0"
    by (simp_all add: newController_def)
  have t0: "exampleTransaction\<lparr>timeAdded := 0\<rparr> = exampleTransaction"
    by (simp add: exampleTransaction_def)
  show ?thesis
    using addTransaction_backpressure[of ?C ?S exampleTransaction]
          addTransaction_backpressure[of ?C fullQueueState exampleTransaction] r0 r2 l0 l2
    by (simp add: q0 t0)
qed

subsection \<open>The write-data FIFO\<close>

lemma switchCommand_writeData:
  assumes "switchCommand cfg p s = Inr s2"
  shows "writeDataToSend s2 = writeDataToSend s" "writeDataCountdown s2 = writeDataCountdown s"
    "outgoingCmdPacket s2 = outgoingCmdPacket s"
  using switchCommand_cases[OF assms] by (auto simp: issue_frames)

lemma switchCommand_WRITE:
  assumes "busPacketType p = WRITE \<or> busPacketType p = WRITE_P"
  shows "switchCommand cfg p s = Inr (issueWrite cfg p s)"
  using assms by (auto simp: switchCommand_def)

lemma issuePopped_SomeE:
  assumes "issuePopped cfg (Some p) s = Inr s'"
  obtains s2 where "switchCommand cfg p (pushWriteData cfg p s) = Inr s2"
    and "outgoingCmdPacket s2 = None"
    and "s' = s2\<lparr>outgoingCmdPacket := Some p, cmdCyclesLeft := tCMD cfg\<rparr>"
  using assms
  by (auto simp: issuePopped_def split: sum.splits if_splits)

lemma issuePopped_writeData:
  assumes "issuePopped cfg pk s = Inr s'"
  shows "writeDataToSend s' = writeDataToSend s @
           (case pk of None \<Rightarrow> []
            | Some p \<Rightarrow> if busPacketType p = WRITE \<or> busPacketType p = WRITE_P
                        then [p\<lparr>busPacketType := DATA\<rparr>] else [])"
    and "writeDataCountdown s' = writeDataCountdown s @
           (case pk of None \<Rightarrow> []
            | Some p \<Rightarrow> if busPacketType p = WRITE \<or> busPacketType p = WRITE_P
                        then [WL cfg] else [])"
proof -
  show "writeDataToSend s' = writeDataToSend s @
           (case pk of None \<Rightarrow> []
            | Some p \<Rightarrow> if busPacketType p = WRITE \<or> busPacketType p = WRITE_P
                        then [p\<lparr>busPacketType := DATA\<rparr>] else [])"
  proof (cases pk)
    case None
    with assms show ?thesis by (simp add: issuePopped_def)
  next
    case (Some p)
    with assms obtain s2 where
      s2: "switchCommand cfg p (pushWriteData cfg p s) = Inr s2"
      "s' = s2\<lparr>outgoingCmdPacket := Some p, cmdCyclesLeft := tCMD cfg\<rparr>"
      by (auto elim: issuePopped_SomeE)
    show ?thesis
      using switchCommand_writeData(1)[OF s2(1)] s2(2) Some by (simp add: pushWriteData_def)
  qed
  show "writeDataCountdown s' = writeDataCountdown s @
           (case pk of None \<Rightarrow> []
            | Some p \<Rightarrow> if busPacketType p = WRITE \<or> busPacketType p = WRITE_P
                        then [WL cfg] else [])"
  proof (cases pk)
    case None
    with assms show ?thesis by (simp add: issuePopped_def)
  next
    case (Some p)
    with assms obtain s2 where
      s2: "switchCommand cfg p (pushWriteData cfg p s) = Inr s2"
      "s' = s2\<lparr>outgoingCmdPacket := Some p, cmdCyclesLeft := tCMD cfg\<rparr>"
      by (auto elim: issuePopped_SomeE)
    show ?thesis
      using switchCommand_writeData(2)[OF s2(1)] s2(2) Some by (simp add: pushWriteData_def)
  qed
qed

lemma issuePopped_WRITE:
  assumes "busPacketType p = WRITE \<or> busPacketType p = WRITE_P" and "outgoingCmdPacket s = None"
  shows "\<exists>s'. issuePopped cfg (Some p) s = Inr s' \<and>
     writeDataToSend s' = writeDataToSend s @ [p\<lparr>busPacketType := DATA\<rparr>] \<and>
     writeDataCountdown s' = writeDataCountdown s @ [WL cfg]"
proof -
  have "\<exists>s'. issuePopped cfg (Some p) s = Inr s'"
    using assms
    by (simp add: issuePopped_def switchCommand_WRITE issue_frames)
  then obtain s' where r: "issuePopped cfg (Some p) s = Inr s'" ..
  show ?thesis
    using issuePopped_writeData[OF r] r assms(1) by auto
qed

lemma drainWriteData_counting:
  assumes "writeDataCountdown s = c # cs" and "c \<noteq> 1"
  shows "drainWriteData cfg s = Inr (s\<lparr>writeDataCountdown := map (\<lambda>x. x - 1) (c # cs)\<rparr>)"
  using assms by (simp add: drainWriteData_def)

lemma drainWriteData_send:
  assumes "writeDataCountdown s = 1 # cs" and "writeDataToSend s = d # ds"
    and "outgoingDataPacket s = None"
  shows "drainWriteData cfg s =
     Inr (s\<lparr>outgoingDataPacket := Some d, dataCyclesLeft := BL cfg div 2,
            totalTransactions := totalTransactions s + 1,
            totalWritesPerBank := addAt (SEQUENTIAL cfg (rank d) (bank d)) 1 (totalWritesPerBank s),
            writeDataCountdown := map (\<lambda>x. x - 1) cs, writeDataToSend := ds\<rparr>)"
  using assms by (simp add: drainWriteData_def)

lemma drainWriteData_collision:
  assumes "writeDataCountdown s = 1 # cs" and "outgoingDataPacket s \<noteq> None"
  shows "drainWriteData cfg s = Inl DataBusCollision"
  using assms by (simp add: drainWriteData_def)

lemma drainWriteData_countdown:
  assumes "drainWriteData cfg s = Inr s'"
  shows "writeDataCountdown s' =
     (let cds = map (\<lambda>x. x - 1) (writeDataCountdown s)
      in if cds \<noteq> [] \<and> hd cds = 0 then tl cds else cds)"
  using assms
  by (auto simp: drainWriteData_def Let_def split: if_splits list.splits)

lemma update_writeDataCountdown:
  assumes "update cfg env s = Inr s'"
  shows "writeDataCountdown s' =
     (let cds = map (\<lambda>x. x - 1) (writeDataCountdown s)
      in if cds \<noteq> [] \<and> hd cds = 0 then tl cds else cds) @
     (case popped env of None \<Rightarrow> []
      | Some p \<Rightarrow> if busPacketType p = WRITE \<or> busPacketType p = WRITE_P then [WL cfg] else [])"
proof -
  from assms obtain s2 s3 s4 where
    p: "drainWriteData cfg (advanceDataBus env (advanceCmdBus env (updateBankStates cfg s))) = Inr s2"
    "issuePopped cfg (popped env) (refreshGate cfg s2) = Inr s3"
    "returnPath cfg env (calculatePower cfg env (admitTransaction env s3)) = Inr s4"
    "s' = stepCommandQueue (decrementRefresh s4)"
    by (rule update_phases)
  have a: "writeDataCountdown s2 =
     (let cds = map (\<lambda>x. x - 1) (writeDataCountdown s)
      in if cds \<noteq> [] \<and> hd cds = 0 then tl cds else cds)"
    using drainWriteData_countdown[OF p(1)]
    by (simp add: advanceDataBus_frame advanceCmdBus_frame updateBankStates_frame)
  have b: "writeDataCountdown s3 = writeDataCountdown s2 @
     (case popped env of None \<Rightarrow> []
      | Some p \<Rightarrow> if busPacketType p = WRITE \<or> busPacketType p = WRITE_P then [WL cfg] else [])"
    using issuePopped_writeData(2)[OF p(2)] by (simp add: refreshGate_frame)
  have c: "writeDataCountdown s' = writeDataCountdown s3"
    using returnPath_frame(7)[OF p(3)] p(4)
    by (simp add: finish_frame calculatePower_frame admitTransaction_frame)
  show ?thesis using a b c by simp
qed

text \<open>
  C8. A WRITE or WRITE_P that is issued appends its DATA twin to
  \<^verbatim>\<open>writeDataToSend\<close> and \<^verbatim>\<open>WL\<close> to \<^verbatim>\<open>writeDataCountdown\<close>. The drain
  phase of every update decrements every countdown; when the head reaches zero (it was 1)
  and the data bus is free, the head packet becomes the outgoing data packet with
  \<^verbatim>\<open>dataCyclesLeft = BL/2\<close> and the head of both vectors is erased; when the data bus
  still holds a packet, the run ends with the data-bus collision. Over a whole update
  that returns, the countdowns are the decremented old ones, without the head if it
  reached zero, followed by \<^verbatim>\<open>WL\<close> if a WRITE or WRITE_P was popped.
\<close>

theorem write_data_fifo:
  "((busPacketType p = WRITE \<or> busPacketType p = WRITE_P) \<and> outgoingCmdPacket s = None \<longrightarrow>
      (\<exists>s'. issuePopped cfg (Some p) s = Inr s' \<and>
         writeDataToSend s' = writeDataToSend s @ [p\<lparr>busPacketType := DATA\<rparr>] \<and>
         writeDataCountdown s' = writeDataCountdown s @ [WL cfg])) \<and>
   (writeDataCountdown s = c # cs \<and> c \<noteq> 1 \<longrightarrow>
      drainWriteData cfg s = Inr (s\<lparr>writeDataCountdown := map (\<lambda>x. x - 1) (c # cs)\<rparr>)) \<and>
   (writeDataCountdown s = 1 # cs \<and> writeDataToSend s = d # ds \<and> outgoingDataPacket s = None \<longrightarrow>
      (\<exists>s'. drainWriteData cfg s = Inr s' \<and>
         outgoingDataPacket s' = Some d \<and> dataCyclesLeft s' = BL cfg div 2 \<and>
         writeDataCountdown s' = map (\<lambda>x. x - 1) cs \<and> writeDataToSend s' = ds)) \<and>
   (writeDataCountdown s = 1 # cs \<and> outgoingDataPacket s \<noteq> None \<longrightarrow>
      drainWriteData cfg s = Inl DataBusCollision) \<and>
   (update cfg env s = Inr s2 \<longrightarrow>
      writeDataCountdown s2 =
        (let cds = map (\<lambda>x. x - 1) (writeDataCountdown s)
         in if cds \<noteq> [] \<and> hd cds = 0 then tl cds else cds) @
        (case popped env of None \<Rightarrow> []
         | Some q \<Rightarrow> if busPacketType q = WRITE \<or> busPacketType q = WRITE_P
                     then [WL cfg] else []))"
  using issuePopped_WRITE[of p s cfg] drainWriteData_counting[of s c cs cfg]
    drainWriteData_send[of s cs d ds cfg] drainWriteData_collision[of s cs cfg]
    update_writeDataCountdown[of cfg env s s2]
  by simp

theorem write_data_fifo_witness:
  "(\<exists>s'. issuePopped writeConfig (Some (examplePacket WRITE 0))
            (newController writeConfig idleBank) = Inr s' \<and>
         writeDataToSend s' = [examplePacket DATA 0] \<and> writeDataCountdown s' = [2]) \<and>
   drainWriteData writeConfig afterWrite = Inr (afterWrite\<lparr>writeDataCountdown := [1]\<rparr>) \<and>
   (\<exists>s'. drainWriteData writeConfig writeDataDue = Inr s' \<and>
         outgoingDataPacket s' = Some (examplePacket DATA 0) \<and> dataCyclesLeft s' = 4 \<and>
         writeDataCountdown s' = [] \<and> writeDataToSend s' = []) \<and>
   drainWriteData writeConfig writeDataClash = Inl DataBusCollision \<and>
   writeDataCountdown (projr (update writeConfig (exampleEnv (Some (examplePacket WRITE 0)))
       afterWrite)) = [1, 2]"
proof -
  let ?W = "examplePacket WRITE 0" and ?S0 = "newController writeConfig idleBank"
  have w: "busPacketType ?W = WRITE \<or> busPacketType ?W = WRITE_P"
    "?W\<lparr>busPacketType := DATA\<rparr> = examplePacket DATA 0"
    by (simp_all add: examplePacket_def)
  have s0: "outgoingCmdPacket ?S0 = None" "writeDataToSend ?S0 = []" "writeDataCountdown ?S0 = []"
    by (simp_all add: newController_def)
  have c: "WL writeConfig = 2" "BL writeConfig div 2 = 4"
    by (simp_all add: writeConfig_def exampleConfig_def)
  have a: "writeDataCountdown afterWrite = 2 # []" "(2::u32) \<noteq> 1"
    by code_simp+
  have d: "writeDataCountdown writeDataDue = 1 # []"
    "writeDataToSend writeDataDue = examplePacket DATA 0 # []"
    "outgoingDataPacket writeDataDue = None"
    by code_simp+
  have e: "writeDataCountdown writeDataClash = 1 # []" "outgoingDataPacket writeDataClash \<noteq> None"
    by code_simp+
  have u: "\<not> isl (update writeConfig (exampleEnv (Some ?W)) afterWrite)"
    by code_simp
  have u': "update writeConfig (exampleEnv (Some ?W)) afterWrite =
            Inr (projr (update writeConfig (exampleEnv (Some ?W)) afterWrite))"
    using u by simp
  have pk: "popped (exampleEnv (Some ?W)) = Some ?W" by (simp add: exampleEnv_def)
  show ?thesis
    using write_data_fifo[of ?W ?S0 writeConfig 2 "[]" "examplePacket DATA 0" "[]"
            "exampleEnv None" ?S0]
          write_data_fifo[of ?W afterWrite writeConfig 2 "[]" "examplePacket DATA 0" "[]"
            "exampleEnv (Some ?W)" "projr (update writeConfig (exampleEnv (Some ?W)) afterWrite)"]
          write_data_fifo[of ?W writeDataDue writeConfig 1 "[]" "examplePacket DATA 0" "[]"
            "exampleEnv None" ?S0]
          write_data_fifo[of ?W writeDataClash writeConfig 1 "[]" "examplePacket DATA 0" "[]"
            "exampleEnv None" ?S0]
          w s0 a d e u' pk
    by (simp add: c)
qed

subsection \<open>Returning read data\<close>

lemma findPending_Some:
  "findPending a ts = Some i \<longleftrightarrow>
     i < length ts \<and> address (ts ! i) = a \<and> (\<forall>j<i. address (ts ! j) \<noteq> a)"
proof (induction ts arbitrary: i)
  case Nil
  then show ?case by simp
next
  case (Cons t ts)
  show ?case
  proof (cases "address t = a")
    case True
    then show ?thesis by (cases i) auto
  next
    case False
    show ?thesis
    proof (cases i)
      case 0
      with False show ?thesis by auto
    next
      case (Suc k)
      have "(\<forall>j<Suc k. address ((t # ts) ! j) \<noteq> a) \<longleftrightarrow> (\<forall>j<k. address (ts ! j) \<noteq> a)"
        using False by (auto simp: less_Suc_eq_0_disj)
      with False Suc Cons.IH[of k] show ?thesis by auto
    qed
  qed
qed

lemma findPending_None:
  "findPending a ts = None \<longleftrightarrow> (\<forall>t\<in>set ts. address t \<noteq> a)"
  by (induction ts) auto

lemma returnPath_match:
  assumes "returnTransaction s = rt # rest"
    and "findPending (address rt) (pendingReadTransactions s) = Some i"
  shows "\<exists>s'. returnPath cfg env s = Inr s' \<and>
     latencies s' = bump (latencies s)
        ((ucast (currentClockCycle s - timeAdded (pendingReadTransactions s ! i))
            div HISTOGRAM_BIN_SIZE cfg) * HISTOGRAM_BIN_SIZE cfg) \<and>
     accessLatencies s' = bump (accessLatencies s)
        ((ucast (currentClockCycle s - timeACTIssued (pendingReadTransactions s ! i))
            div HISTOGRAM_BIN_SIZE cfg) * HISTOGRAM_BIN_SIZE cfg) \<and>
     events s' = events s @
        (if hasReturnReadData env then [ReturnReadData (address rt) (currentClockCycle s)] else []) \<and>
     pendingReadTransactions s' =
        take i (pendingReadTransactions s) @ drop (Suc i) (pendingReadTransactions s) \<and>
     returnTransaction s' = rest"
proof -
  have "address (pendingReadTransactions s ! i) = address rt"
    using assms(2) by (simp add: findPending_Some)
  then show ?thesis
    using assms
    by (simp add: returnPath_def insertHistogram_def Let_def split: prod.splits)
qed

lemma returnPath_no_match:
  assumes "returnTransaction s = rt # rest"
    and "findPending (address rt) (pendingReadTransactions s) = None"
  shows "returnPath cfg env s = Inl (NoMatchingTransaction (address rt))"
  using assms by (simp add: returnPath_def Let_def)

lemma returnPath_histograms:
  assumes "returnTransaction s = rt # rest"
    and "findPending (address rt) (pendingReadTransactions s) = Some i"
    and "returnPath cfg env s = Inr s'"
  shows "latencies s' k =
     (if k = ucast (currentClockCycle s - timeAdded (pendingReadTransactions s ! i))
               div HISTOGRAM_BIN_SIZE cfg * HISTOGRAM_BIN_SIZE cfg
      then (case latencies s k of None \<Rightarrow> Some 1 | Some n \<Rightarrow> Some (n + 1))
      else latencies s k)"
    and "accessLatencies s' k =
     (if k = ucast (currentClockCycle s - timeACTIssued (pendingReadTransactions s ! i))
               div HISTOGRAM_BIN_SIZE cfg * HISTOGRAM_BIN_SIZE cfg
      then (case accessLatencies s k of None \<Rightarrow> Some 1 | Some n \<Rightarrow> Some (n + 1))
      else accessLatencies s k)"
  using assms
  by (auto simp: returnPath_def insertHistogram_def bump_def Let_def
      split: prod.splits option.splits)

text \<open>
  C6. With a transaction \<open>rt\<close> at the head of \<^verbatim>\<open>returnTransaction\<close>, the return
  phase of update takes the first entry \<open>i\<close> of \<^verbatim>\<open>pendingReadTransactions\<close> with
  \<open>rt\<close>'s address (no earlier entry has it) and records
  \<open>totalLatency = now - timeAdded\<close> and \<open>accessLatency = now - timeACTIssued\<close> (as
  \<^verbatim>\<open>unsigned\<close>) in the two histograms: the count of the bin
  \<open>latency div HISTOGRAM_BIN_SIZE * HISTOGRAM_BIN_SIZE\<close> goes up by one, from 0 to 1 when
  the bin is new, and the count of no other bin changes. It fires
  \<^verbatim>\<open>ReturnReadData\<close> if the callback is registered, and erases the pending entry and
  the head of \<^verbatim>\<open>returnTransaction\<close>. When no pending read has the address, the run
  aborts.
\<close>

theorem return_path_delivers:
  "returnTransaction s = rt # rest \<longrightarrow>
     ((i < length (pendingReadTransactions s) \<and>
       address (pendingReadTransactions s ! i) = address rt \<and>
       (\<forall>j<i. address (pendingReadTransactions s ! j) \<noteq> address rt)) \<longrightarrow>
        (\<exists>s'. returnPath cfg env s = Inr s' \<and>
           (\<forall>k. latencies s' k =
              (if k = ucast (currentClockCycle s - timeAdded (pendingReadTransactions s ! i))
                        div HISTOGRAM_BIN_SIZE cfg * HISTOGRAM_BIN_SIZE cfg
               then (case latencies s k of None \<Rightarrow> Some 1 | Some n \<Rightarrow> Some (n + 1))
               else latencies s k)) \<and>
           (\<forall>k. accessLatencies s' k =
              (if k = ucast (currentClockCycle s - timeACTIssued (pendingReadTransactions s ! i))
                        div HISTOGRAM_BIN_SIZE cfg * HISTOGRAM_BIN_SIZE cfg
               then (case accessLatencies s k of None \<Rightarrow> Some 1 | Some n \<Rightarrow> Some (n + 1))
               else accessLatencies s k)) \<and>
           events s' = events s @
              (if hasReturnReadData env
               then [ReturnReadData (address rt) (currentClockCycle s)] else []) \<and>
           pendingReadTransactions s' =
              take i (pendingReadTransactions s) @ drop (Suc i) (pendingReadTransactions s) \<and>
           returnTransaction s' = rest)) \<and>
     ((\<forall>t\<in>set (pendingReadTransactions s). address t \<noteq> address rt) \<longrightarrow>
        returnPath cfg env s = Inl (NoMatchingTransaction (address rt)))"
proof (intro impI conjI)
  assume h: "returnTransaction s = rt # rest"
    and m: "i < length (pendingReadTransactions s) \<and>
       address (pendingReadTransactions s ! i) = address rt \<and>
       (\<forall>j<i. address (pendingReadTransactions s ! j) \<noteq> address rt)"
  have f: "findPending (address rt) (pendingReadTransactions s) = Some i"
    using m by (simp add: findPending_Some)
  from returnPath_match[OF h f, of cfg env] obtain s' where
    s': "returnPath cfg env s = Inr s'"
      "events s' = events s @
        (if hasReturnReadData env then [ReturnReadData (address rt) (currentClockCycle s)] else [])"
      "pendingReadTransactions s' =
        take i (pendingReadTransactions s) @ drop (Suc i) (pendingReadTransactions s)"
      "returnTransaction s' = rest"
    by blast
  show "\<exists>s'. returnPath cfg env s = Inr s' \<and>
           (\<forall>k. latencies s' k =
              (if k = ucast (currentClockCycle s - timeAdded (pendingReadTransactions s ! i))
                        div HISTOGRAM_BIN_SIZE cfg * HISTOGRAM_BIN_SIZE cfg
               then (case latencies s k of None \<Rightarrow> Some 1 | Some n \<Rightarrow> Some (n + 1))
               else latencies s k)) \<and>
           (\<forall>k. accessLatencies s' k =
              (if k = ucast (currentClockCycle s - timeACTIssued (pendingReadTransactions s ! i))
                        div HISTOGRAM_BIN_SIZE cfg * HISTOGRAM_BIN_SIZE cfg
               then (case accessLatencies s k of None \<Rightarrow> Some 1 | Some n \<Rightarrow> Some (n + 1))
               else accessLatencies s k)) \<and>
           events s' = events s @
              (if hasReturnReadData env
               then [ReturnReadData (address rt) (currentClockCycle s)] else []) \<and>
           pendingReadTransactions s' =
              take i (pendingReadTransactions s) @ drop (Suc i) (pendingReadTransactions s) \<and>
           returnTransaction s' = rest"
    using s' returnPath_histograms[OF h f s'(1)] by blast
next
  assume h: "returnTransaction s = rt # rest"
    and n: "\<forall>t\<in>set (pendingReadTransactions s). address t \<noteq> address rt"
  show "returnPath cfg env s = Inl (NoMatchingTransaction (address rt))"
    using returnPath_no_match[OF h, of cfg env] n by (simp add: findPending_None)
qed

theorem return_path_delivers_witness:
  "latencies readReturning 10 = None \<and> accessLatencies readReturning 0 = None \<and>
   (\<exists>s'. returnPath (exampleConfig True) (exampleEnv None) readReturning = Inr s' \<and>
      latencies s' 10 = Some 1 \<and> accessLatencies s' 0 = Some 1 \<and>
      latencies s' 0 = None \<and> accessLatencies s' 10 = None \<and>
      events s' = events readReturning @ [ReturnReadData 4096 14] \<and>
      pendingReadTransactions s' = [] \<and> returnTransaction s' = []) \<and>
   returnPath (exampleConfig True) (exampleEnv None) strayReturn = Inl (NoMatchingTransaction 4096)"
proof -
  let ?rt = "\<lparr>transactionType = RETURN_DATA, address = 4096, trans_data = 0, timeAdded = 0,
              timeACTIssued = 0\<rparr>"
  have r: "returnTransaction readReturning = ?rt # []"
    "pendingReadTransactions readReturning =
       [\<lparr>transactionType = DATA_READ, address = 4096, trans_data = 0, timeAdded = 0,
         timeACTIssued = 5\<rparr>]"
    "currentClockCycle readReturning = 14"
    by code_simp+
  have h: "latencies readReturning 10 = None" "accessLatencies readReturning 0 = None"
    "latencies readReturning 0 = None" "accessLatencies readReturning 10 = None"
    by code_simp+
  have t: "returnTransaction strayReturn = ?rt # []" "pendingReadTransactions strayReturn = []"
    by code_simp+
  have c: "HISTOGRAM_BIN_SIZE (exampleConfig True) = 10" "hasReturnReadData (exampleEnv None)"
    by (simp_all add: exampleConfig_def exampleEnv_def)
  have n: "(ucast (14 :: u64) :: u32) = 14" "(ucast (9 :: u64) :: u32) = 9"
    "(14 :: u32) div 10 * 10 = 10" "(9 :: u32) div 10 * 10 = 0"
    by simp_all
  show ?thesis
    using return_path_delivers[of readReturning ?rt "[]" 0 "exampleConfig True" "exampleEnv None"]
          return_path_delivers[of strayReturn ?rt "[]" 0 "exampleConfig True" "exampleEnv None"]
    by (auto simp add: r t c n h)
qed

subsection \<open>The events of one update\<close>

lemma advanceCmdBus_events:
  "\<exists>evs. events (advanceCmdBus env s) = events s @ evs \<and> filter isReturnReadData evs = []"
  by (simp add: advanceCmdBus_def Let_def split: option.splits)

lemma advanceDataBus_events:
  "\<exists>evs. events (advanceDataBus env s) = events s @ evs \<and> filter isReturnReadData evs = []"
  by (simp add: advanceDataBus_def Let_def split: option.splits)

lemma refreshGate_events:
  "events (refreshGate cfg s) =
     events s @ (if refreshCountdown s ! refreshRank s = 0 then [NeedRefresh (refreshRank s)] else [])"
  by (simp add: refreshGate_def Let_def)

lemma admitTransaction_events:
  "\<exists>evs. events (admitTransaction env s) = events s @ evs \<and> filter isReturnReadData evs = []"
  by (simp add: admitTransaction_def Let_def split: option.splits prod.splits)

lemma lowPowerRank_events:
  "\<exists>evs. events (lowPowerRank cfg env i s) = events s @ evs \<and> filter isReturnReadData evs = []"
  by (simp add: lowPowerRank_def)

lemma calculatePower_events:
  "\<exists>evs. events (calculatePower cfg env s) = events s @ evs \<and> filter isReturnReadData evs = []"
proof -
  have "\<exists>evs. events (fold (powerRank cfg env) xs s)
              = events s @ evs \<and> filter isReturnReadData evs = []" for xs
  proof (induction xs arbitrary: s)
    case Nil
    then show ?case by simp
  next
    case (Cons i xs)
    let ?s1 = "powerRank cfg env i s"
    obtain e1 where e1: "events ?s1 = events s @ e1" "filter isReturnReadData e1 = []"
      using lowPowerRank_events[of cfg env i s] by (auto simp: powerRank_def backgroundRank_frame)
    obtain e2 where e2:
      "events (fold (powerRank cfg env) xs ?s1)
         = events ?s1 @ e2" "filter isReturnReadData e2 = []"
      using Cons.IH[of ?s1] by auto
    show ?case using e1 e2 by simp
  qed
  then show ?thesis by (simp add: calculatePower_def)
qed

lemma returnPath_events:
  assumes "returnPath cfg env s = Inr s'"
  shows "\<exists>evs. events s' = events s @ evs \<and> length (filter isReturnReadData evs) \<le> 1 \<and>
           (returnTransaction s = [] \<longrightarrow> evs = [])"
    and "returnTransaction s' = tl (returnTransaction s)"
  using assms
  by (auto simp: returnPath_def insertHistogram_def Let_def
      split: list.splits option.splits prod.splits)

lemma update_events:
  assumes "update cfg env s = Inr s'"
  shows "\<exists>evs. events s' = events s @ evs \<and> length (filter isReturnReadData evs) \<le> 1 \<and>
           (returnTransaction s = [] \<longrightarrow> filter isReturnReadData evs = [])"
    and "returnTransaction s' = tl (returnTransaction s)"
proof -
  from assms obtain s2 s3 s4 where
    p: "drainWriteData cfg (advanceDataBus env (advanceCmdBus env (updateBankStates cfg s))) = Inr s2"
    "issuePopped cfg (popped env) (refreshGate cfg s2) = Inr s3"
    "returnPath cfg env (calculatePower cfg env (admitTransaction env s3)) = Inr s4"
    "s' = stepCommandQueue (decrementRefresh s4)"
    by (rule update_phases)
  let ?sa = "advanceCmdBus env (updateBankStates cfg s)"
  let ?sb = "advanceDataBus env ?sa"
  let ?sc = "admitTransaction env s3"
  let ?sd = "calculatePower cfg env ?sc"
  obtain e1 where e1: "events ?sa = events s @ e1" "filter isReturnReadData e1 = []"
    using advanceCmdBus_events[of env "updateBankStates cfg s"]
    by (auto simp: updateBankStates_frame)
  obtain e2 where e2: "events ?sb = events ?sa @ e2" "filter isReturnReadData e2 = []"
    using advanceDataBus_events[of env ?sa] by auto
  have e3: "events s2 = events ?sb" by (rule drainWriteData_frame(11)[OF p(1)])
  obtain e4 where e4: "events s3 = events s2 @ e4" "filter isReturnReadData e4 = []"
    using issuePopped_frame(10)[OF p(2)] by (simp add: refreshGate_events)
  obtain e5 where e5: "events ?sc = events s3 @ e5" "filter isReturnReadData e5 = []"
    using admitTransaction_events[of env s3] by auto
  obtain e6 where e6: "events ?sd = events ?sc @ e6" "filter isReturnReadData e6 = []"
    using calculatePower_events[of cfg env ?sc] by auto
  have rt3: "returnTransaction ?sd = returnTransaction s"
    using drainWriteData_frame(10)[OF p(1)] issuePopped_frame(9)[OF p(2)]
    by (simp add: calculatePower_frame admitTransaction_frame refreshGate_frame
        advanceDataBus_frame advanceCmdBus_frame updateBankStates_frame)
  obtain e7 where e7: "events s4 = events ?sd @ e7" "length (filter isReturnReadData e7) \<le> 1"
    "returnTransaction s = [] \<longrightarrow> e7 = []"
    using returnPath_events(1)[OF p(3)] rt3 by auto
  have ev: "events s' = events s @ (e1 @ e2 @ e4 @ e5 @ e6 @ e7 @ [CommandQueueStep])"
    using e1 e2 e3 e4 e5 e6 e7 p(4) by (simp add: finish_frame)
  have cnt: "filter isReturnReadData (e1 @ e2 @ e4 @ e5 @ e6 @ e7 @ [CommandQueueStep])
               = filter isReturnReadData e7"
    using e1 e2 e4 e5 e6 by simp
  show "\<exists>evs. events s' = events s @ evs \<and> length (filter isReturnReadData evs) \<le> 1 \<and>
           (returnTransaction s = [] \<longrightarrow> filter isReturnReadData evs = [])"
    using ev cnt e7(2,3) by (metis filter.simps(1))
  show "returnTransaction s' = tl (returnTransaction s)"
    using returnPath_events(2)[OF p(3)] rt3 p(4) by (simp add: finish_frame)
qed

text \<open>
  C10. An update that returns fires at most one \<^verbatim>\<open>ReturnReadData\<close> callback (none
  when \<^verbatim>\<open>returnTransaction\<close> is empty) and takes exactly the head off
  \<^verbatim>\<open>returnTransaction\<close>: every other queued return is still queued after the update
  and waits for a later one.
\<close>

theorem one_return_per_update:
  "update cfg env s = Inr s' \<longrightarrow>
     (\<exists>evs. events s' = events s @ evs \<and> length (filter isReturnReadData evs) \<le> 1 \<and>
        (returnTransaction s = [] \<longrightarrow> filter isReturnReadData evs = [])) \<and>
     returnTransaction s' = tl (returnTransaction s)"
  using update_events[of cfg env s s'] by simp

theorem one_return_per_update_witness:
  "length (returnTransaction twoReturnsQueued) = 2 \<and>
   \<not> isl (update (exampleConfig True) (exampleEnv None) twoReturnsQueued) \<and>
   (\<exists>evs. events (projr (update (exampleConfig True) (exampleEnv None) twoReturnsQueued)) =
             events twoReturnsQueued @ evs \<and> length (filter isReturnReadData evs) \<le> 1) \<and>
   length (returnTransaction
     (projr (update (exampleConfig True) (exampleEnv None) twoReturnsQueued))) = 1"
proof -
  let ?u = "update (exampleConfig True) (exampleEnv None) twoReturnsQueued"
  have l: "length (returnTransaction twoReturnsQueued) = 2" by code_simp
  have u: "\<not> isl ?u" by code_simp
  then have u': "?u = Inr (projr ?u)" by simp
  show ?thesis
    using one_return_per_update[of "exampleConfig True" "exampleEnv None" twoReturnsQueued "projr ?u"]
      u u' l
    by auto
qed

subsection \<open>The energy counters\<close>

lemma unat_ucast_u32: "unat (ucast (x :: u32) :: u64) = unat x"
proof -
  have "unat x < 2 ^ 32" using unsigned_less[of x] by simp
  then have "unat x < 2 ^ 64" by simp
  then show ?thesis by (simp add: unsigned_ucast_eq take_bit_nat_eq_self)
qed

lemma credited_le:
  assumes "credited old new" and "unat old < 2 ^ 64 - 2 ^ 32"
  shows "old \<le> new"
proof -
  from assms(1) consider "new = old" | x :: u32 where "new = old + ucast x"
    by (auto simp: credited_def)
  then show ?thesis
  proof cases
    case 1
    then show ?thesis by simp
  next
    case 2
    have "unat x < 2 ^ 32" using unsigned_less[of x] by simp
    then have "unat old + unat (ucast x :: u64) < 2 ^ LENGTH(64)"
      using assms(2) by (simp add: unat_ucast_u32)
    then have "unat (old + ucast x) = unat old + unat (ucast x :: u64)"
      by (simp only: unat_add_lem)
    then show ?thesis using 2 by (simp add: word_le_nat_alt)
  qed
qed

lemma credited_refl [simp]: "credited a a"
  by (simp add: credited_def)

lemma credited_addAt:
  "j < length v \<Longrightarrow> credited (v ! j) (addAt i (ucast (x :: u32)) v ! j)"
  by (auto simp: credited_def nth_addAt)

lemma issueRead_burstEnergy:
  "burstEnergy (issueRead cfg p s) =
     addAt (rank p) (ucast ((((IDD4R cfg - IDD3N cfg) * BL cfg) div 2) * NUM_DEVICES cfg))
       (burstEnergy s)"
  by (simp add: issueRead_def Let_def)

lemma issueWrite_burstEnergy:
  "burstEnergy (issueWrite cfg p s) =
     addAt (rank p) (ucast ((((IDD4W cfg - IDD3N cfg) * BL cfg) div 2) * NUM_DEVICES cfg))
       (burstEnergy s)"
  by (simp add: issueWrite_def Let_def)

lemma issueRefresh_refreshEnergy:
  "refreshEnergy (issueRefresh cfg p s) =
     addAt (rank p) (ucast (((IDD5 cfg - IDD3N cfg) * tRFC cfg) * NUM_DEVICES cfg))
       (refreshEnergy s)"
  by (simp add: issueRefresh_def Let_def)

lemma switchCommand_energy:
  assumes "switchCommand cfg p s = Inr s2"
  shows "r < length (burstEnergy s) \<Longrightarrow> credited (burstEnergy s ! r) (burstEnergy s2 ! r)"
    and "r < length (actpreEnergy s) \<Longrightarrow> credited (actpreEnergy s ! r) (actpreEnergy s2 ! r)"
    and "r < length (refreshEnergy s) \<Longrightarrow> credited (refreshEnergy s ! r) (refreshEnergy s2 ! r)"
    and "length (burstEnergy s2) = length (burstEnergy s)"
    and "length (actpreEnergy s2) = length (actpreEnergy s)"
    and "length (refreshEnergy s2) = length (refreshEnergy s)"
  using switchCommand_cases[OF assms]
  by (auto simp: issue_frames issueRead_burstEnergy issueWrite_burstEnergy
      issueRefresh_refreshEnergy issueRead_actpreEnergy issueWrite_actpreEnergy credited_addAt)

lemma issuePopped_energy:
  assumes "issuePopped cfg pk s = Inr s'"
  shows "r < length (burstEnergy s) \<Longrightarrow> credited (burstEnergy s ! r) (burstEnergy s' ! r)"
    and "r < length (actpreEnergy s) \<Longrightarrow> credited (actpreEnergy s ! r) (actpreEnergy s' ! r)"
    and "r < length (refreshEnergy s) \<Longrightarrow> credited (refreshEnergy s ! r) (refreshEnergy s' ! r)"
proof -
  show "r < length (burstEnergy s) \<Longrightarrow> credited (burstEnergy s ! r) (burstEnergy s' ! r)"
  proof (cases pk)
    case None
    with assms show ?thesis by (simp add: issuePopped_def)
  next
    case (Some p)
    assume r: "r < length (burstEnergy s)"
    from Some assms obtain s2 where
      s2: "switchCommand cfg p (pushWriteData cfg p s) = Inr s2"
      "s' = s2\<lparr>outgoingCmdPacket := Some p, cmdCyclesLeft := tCMD cfg\<rparr>"
      by (auto elim: issuePopped_SomeE)
    show ?thesis
      using switchCommand_energy(1)[OF s2(1), of r] r s2(2) by (simp add: pushWriteData_frame)
  qed
  show "r < length (actpreEnergy s) \<Longrightarrow> credited (actpreEnergy s ! r) (actpreEnergy s' ! r)"
  proof (cases pk)
    case None
    with assms show ?thesis by (simp add: issuePopped_def)
  next
    case (Some p)
    assume r: "r < length (actpreEnergy s)"
    from Some assms obtain s2 where
      s2: "switchCommand cfg p (pushWriteData cfg p s) = Inr s2"
      "s' = s2\<lparr>outgoingCmdPacket := Some p, cmdCyclesLeft := tCMD cfg\<rparr>"
      by (auto elim: issuePopped_SomeE)
    show ?thesis
      using switchCommand_energy(2)[OF s2(1), of r] r s2(2) by (simp add: pushWriteData_frame)
  qed
  show "r < length (refreshEnergy s) \<Longrightarrow> credited (refreshEnergy s ! r) (refreshEnergy s' ! r)"
  proof (cases pk)
    case None
    with assms show ?thesis by (simp add: issuePopped_def)
  next
    case (Some p)
    assume r: "r < length (refreshEnergy s)"
    from Some assms obtain s2 where
      s2: "switchCommand cfg p (pushWriteData cfg p s) = Inr s2"
      "s' = s2\<lparr>outgoingCmdPacket := Some p, cmdCyclesLeft := tCMD cfg\<rparr>"
      by (auto elim: issuePopped_SomeE)
    show ?thesis
      using switchCommand_energy(3)[OF s2(1), of r] r s2(2) by (simp add: pushWriteData_frame)
  qed
qed

lemma powerStep_background:
  "\<exists>x :: u32. backgroundEnergy (powerRank cfg env i s) =
     addAt i (ucast x) (backgroundEnergy s)"
  by (auto simp: powerRank_def backgroundRank_def lowPowerRank_frame)

lemma powerFold_untouched:
  "r \<notin> set xs \<Longrightarrow>
   backgroundEnergy (fold (powerRank cfg env) xs s) ! r
     = backgroundEnergy s ! r \<and>
   length (backgroundEnergy (fold (powerRank cfg env) xs s))
     = length (backgroundEnergy s)"
proof (induction xs arbitrary: s)
  case Nil
  then show ?case by simp
next
  case (Cons i xs)
  let ?s1 = "powerRank cfg env i s"
  obtain x :: u32 where x: "backgroundEnergy ?s1 = addAt i (ucast x) (backgroundEnergy s)"
    using powerStep_background by blast
  have "i \<noteq> r" "r \<notin> set xs" using Cons.prems by auto
  then show ?case using Cons.IH[of ?s1] x by (simp add: addAt_def)
qed

lemma powerFold_credited:
  "distinct xs \<Longrightarrow> r < length (backgroundEnergy s) \<Longrightarrow>
   credited (backgroundEnergy s ! r)
     (backgroundEnergy (fold (powerRank cfg env) xs s) ! r)"
proof (induction xs arbitrary: s)
  case Nil
  then show ?case by simp
next
  case (Cons i xs)
  let ?s1 = "powerRank cfg env i s"
  obtain x :: u32 where x: "backgroundEnergy ?s1 = addAt i (ucast x) (backgroundEnergy s)"
    using powerStep_background by blast
  show ?case
  proof (cases "i = r")
    case True
    then have "r \<notin> set xs" using Cons.prems(1) by simp
    then have "backgroundEnergy (fold (powerRank cfg env) xs ?s1) ! r
                 = backgroundEnergy ?s1 ! r"
      using powerFold_untouched by blast
    then show ?thesis using x Cons.prems(2) True credited_addAt[of r "backgroundEnergy s" r x]
      by simp
  next
    case False
    have l: "r < length (backgroundEnergy ?s1)" using x Cons.prems(2) by simp
    have "backgroundEnergy ?s1 ! r = backgroundEnergy s ! r"
      using x False Cons.prems(2) by (simp add: nth_addAt)
    then show ?thesis using Cons.IH[OF _ l] Cons.prems(1) by simp
  qed
qed

lemma calculatePower_background:
  "r < length (backgroundEnergy s) \<Longrightarrow>
   credited (backgroundEnergy s ! r) (backgroundEnergy (calculatePower cfg env s) ! r)"
  unfolding calculatePower_def by (rule powerFold_credited) simp_all

lemma update_energy_credited:
  assumes "update cfg env s = Inr s'"
  shows "r < length (backgroundEnergy s) \<Longrightarrow> credited (backgroundEnergy s ! r) (backgroundEnergy s' ! r)"
    and "r < length (burstEnergy s) \<Longrightarrow> credited (burstEnergy s ! r) (burstEnergy s' ! r)"
    and "r < length (actpreEnergy s) \<Longrightarrow> credited (actpreEnergy s ! r) (actpreEnergy s' ! r)"
    and "r < length (refreshEnergy s) \<Longrightarrow> credited (refreshEnergy s ! r) (refreshEnergy s' ! r)"
proof -
  from assms obtain s2 s3 s4 where
    p: "drainWriteData cfg (advanceDataBus env (advanceCmdBus env (updateBankStates cfg s))) = Inr s2"
    "issuePopped cfg (popped env) (refreshGate cfg s2) = Inr s3"
    "returnPath cfg env (calculatePower cfg env (admitTransaction env s3)) = Inr s4"
    "s' = stepCommandQueue (decrementRefresh s4)"
    by (rule update_phases)
  have pre: "backgroundEnergy (refreshGate cfg s2) = backgroundEnergy s"
    "burstEnergy (refreshGate cfg s2) = burstEnergy s"
    "actpreEnergy (refreshGate cfg s2) = actpreEnergy s"
    "refreshEnergy (refreshGate cfg s2) = refreshEnergy s"
    using drainWriteData_frame[OF p(1)]
    by (simp_all add: refreshGate_frame advanceDataBus_frame advanceCmdBus_frame
        updateBankStates_frame)
  have post: "backgroundEnergy s' = backgroundEnergy (calculatePower cfg env (admitTransaction env s3))"
    "burstEnergy s' = burstEnergy s3" "actpreEnergy s' = actpreEnergy s3"
    "refreshEnergy s' = refreshEnergy s3"
    using returnPath_frame[OF p(3)] p(4)
    by (simp_all add: finish_frame calculatePower_frame admitTransaction_frame)
  have bg3: "backgroundEnergy (admitTransaction env s3) = backgroundEnergy s"
    using issuePopped_frame(8)[OF p(2)] pre(1) by (simp add: admitTransaction_frame)
  show "r < length (backgroundEnergy s) \<Longrightarrow> credited (backgroundEnergy s ! r) (backgroundEnergy s' ! r)"
    using calculatePower_background[of r "admitTransaction env s3" cfg env] bg3 post(1) by simp
  show "r < length (burstEnergy s) \<Longrightarrow> credited (burstEnergy s ! r) (burstEnergy s' ! r)"
    using issuePopped_energy(1)[OF p(2), of r] pre(2) post(2) by simp
  show "r < length (actpreEnergy s) \<Longrightarrow> credited (actpreEnergy s ! r) (actpreEnergy s' ! r)"
    using issuePopped_energy(2)[OF p(2), of r] pre(3) post(3) by simp
  show "r < length (refreshEnergy s) \<Longrightarrow> credited (refreshEnergy s ! r) (refreshEnergy s' ! r)"
    using issuePopped_energy(3)[OF p(2), of r] pre(4) post(4) by simp
qed

lemma zero_fold:
  "r < length v \<Longrightarrow> r \<in> set xs \<or> v ! r = (0 :: u64) \<Longrightarrow>
   fold (\<lambda>i v. v[i := 0]) xs v ! r = 0"
proof (induction xs arbitrary: v)
  case Nil
  then show ?case by simp
next
  case (Cons i xs)
  have "r < length (v[i := 0])" using Cons.prems(1) by simp
  moreover have "r \<in> set xs \<or> v[i := 0] ! r = 0"
    using Cons.prems by (cases "i = r") auto
  ultimately show ?case using Cons.IH[of "v[i := 0]"] by simp
qed

lemma resetRank_energy:
  "backgroundEnergy (resetRank cfg i s) = (backgroundEnergy s)[i := 0]"
  "burstEnergy (resetRank cfg i s) = (burstEnergy s)[i := 0]"
  "actpreEnergy (resetRank cfg i s) = (actpreEnergy s)[i := 0]"
  "refreshEnergy (resetRank cfg i s) = (refreshEnergy s)[i := 0]"
  by (simp_all add: resetRank_def Let_def fold_frame resetBank_frame)

lemma fold_resetRank_energy:
  "backgroundEnergy (fold (resetRank cfg) xs s) = fold (\<lambda>i v. v[i := 0]) xs (backgroundEnergy s)"
  "burstEnergy (fold (resetRank cfg) xs s) = fold (\<lambda>i v. v[i := 0]) xs (burstEnergy s)"
  "actpreEnergy (fold (resetRank cfg) xs s) = fold (\<lambda>i v. v[i := 0]) xs (actpreEnergy s)"
  "refreshEnergy (fold (resetRank cfg) xs s) = fold (\<lambda>i v. v[i := 0]) xs (refreshEnergy s)"
  by (induction xs arbitrary: s) (simp_all add: resetRank_energy)

lemma resetStats_energy:
  assumes "sized cfg s" and "r < NUM_RANKS cfg"
  shows "backgroundEnergy (resetStats cfg s) ! r = 0" "burstEnergy (resetStats cfg s) ! r = 0"
    "actpreEnergy (resetStats cfg s) ! r = 0" "refreshEnergy (resetStats cfg s) ! r = 0"
  using assms
  by (simp_all add: resetStats_def Let_def fold_resetRank_energy zero_fold sized_def)

lemma tally_sized:
  "sized cfg s \<Longrightarrow> sized cfg (fold (tallyRank cfg) xs s)"
proof (induction xs arbitrary: s)
  case Nil
  then show ?case by simp
next
  case (Cons i xs)
  have "\<And>js t. sized cfg t \<Longrightarrow> sized cfg (fold (tallyBank cfg i) js t)"
  proof -
    fix js t show "sized cfg t \<Longrightarrow> sized cfg (fold (tallyBank cfg i) js t)"
      by (induction js arbitrary: t) (simp_all add: sized_def tallyBank_def)
  qed
  then have "sized cfg (tallyRank cfg i s)" using Cons.prems by (simp add: tallyRank_def)
  then show ?case using Cons.IH by simp
qed

lemma printStats_energy:
  assumes "sized cfg s" and "r < NUM_RANKS cfg"
  shows "backgroundEnergy (printStats cfg s) ! r = 0" "burstEnergy (printStats cfg s) ! r = 0"
    "actpreEnergy (printStats cfg s) ! r = 0" "refreshEnergy (printStats cfg s) ! r = 0"
  unfolding printStats_def
  by (rule resetStats_energy[OF tally_sized[OF assms(1)] assms(2)])+

text \<open>
  C9, as the code has it. An update that returns never lowers an energy counter of a
  rank as long as the 64-bit counter does not wrap (it is below \<open>2^64 - 2^32\<close>; each
  counter is credited at most one \<^verbatim>\<open>unsigned\<close> amount per update), but the
  statistics dump \<^verbatim>\<open>printStats\<close>, which ends with \<^verbatim>\<open>resetStats\<close>, sets all four
  counters of every rank back to 0.
\<close>

theorem energy_counters:
  assumes "sized cfg s" and "r < NUM_RANKS cfg"
  shows "(update cfg env s = Inr s' \<longrightarrow>
       (unat (backgroundEnergy s ! r) < 2 ^ 64 - 2 ^ 32 \<longrightarrow>
          backgroundEnergy s ! r \<le> backgroundEnergy s' ! r) \<and>
       (unat (burstEnergy s ! r) < 2 ^ 64 - 2 ^ 32 \<longrightarrow>
          burstEnergy s ! r \<le> burstEnergy s' ! r) \<and>
       (unat (actpreEnergy s ! r) < 2 ^ 64 - 2 ^ 32 \<longrightarrow>
          actpreEnergy s ! r \<le> actpreEnergy s' ! r) \<and>
       (unat (refreshEnergy s ! r) < 2 ^ 64 - 2 ^ 32 \<longrightarrow>
          refreshEnergy s ! r \<le> refreshEnergy s' ! r)) \<and>
     backgroundEnergy (printStats cfg s) ! r = 0 \<and> burstEnergy (printStats cfg s) ! r = 0 \<and>
     actpreEnergy (printStats cfg s) ! r = 0 \<and> refreshEnergy (printStats cfg s) ! r = 0"
proof -
  have len: "r < length (backgroundEnergy s)" "r < length (burstEnergy s)"
    "r < length (actpreEnergy s)" "r < length (refreshEnergy s)"
    using assms by (simp_all add: sized_def)
  show ?thesis
    using update_energy_credited[of cfg env s s' r] len credited_le printStats_energy[OF assms]
    by blast
qed

theorem energy_counters_witness:
  "\<not> isl (update (exampleConfig False) (exampleEnv None) energySpent) \<and>
   backgroundEnergy energySpent ! 0
     \<le> backgroundEnergy (projr (update (exampleConfig False) (exampleEnv None) energySpent)) ! 0 \<and>
   burstEnergy energySpent ! 0
     \<le> burstEnergy (projr (update (exampleConfig False) (exampleEnv None) energySpent)) ! 0 \<and>
   actpreEnergy energySpent ! 0
     \<le> actpreEnergy (projr (update (exampleConfig False) (exampleEnv None) energySpent)) ! 0 \<and>
   refreshEnergy energySpent ! 0
     \<le> refreshEnergy (projr (update (exampleConfig False) (exampleEnv None) energySpent)) ! 0 \<and>
   backgroundEnergy (printStats (exampleConfig False) energySpent) ! 0 = 0 \<and>
   burstEnergy (printStats (exampleConfig False) energySpent) ! 0 = 0 \<and>
   actpreEnergy (printStats (exampleConfig False) energySpent) ! 0 = 0 \<and>
   refreshEnergy (printStats (exampleConfig False) energySpent) ! 0 = 0"
proof -
  let ?C = "exampleConfig False"
  let ?u = "update ?C (exampleEnv None) energySpent"
  have sz: "sized ?C energySpent" by code_simp
  have r: "0 < NUM_RANKS ?C" by (simp add: exampleConfig_def)
  have u: "\<not> isl ?u" by code_simp
  then have u': "?u = Inr (projr ?u)" by simp
  have e: "rankEnergy energySpent 0 = (1080, 3040, 15360, 91760)" by code_simp
  have b: "unat (1080 :: u64) < 2 ^ 64 - 2 ^ 32" "unat (3040 :: u64) < 2 ^ 64 - 2 ^ 32"
    "unat (15360 :: u64) < 2 ^ 64 - 2 ^ 32" "unat (91760 :: u64) < 2 ^ 64 - 2 ^ 32"
    by simp_all
  show ?thesis
    using energy_counters[OF sz r, of "exampleEnv None" "projr ?u"] u u' e b
    by (simp add: rankEnergy_def)
qed

theorem energy_reset_counterexample:
  "rankEnergy energySpent 0 = (1080, 3040, 15360, 91760) \<and>
   rankEnergy (printStats (exampleConfig False) energySpent) 0 = (0, 0, 0, 0)"
  by code_simp

subsection \<open>The refresh schedule\<close>

lemma order_head:
  assumes "rr < length cds"
  shows "drop rr cds @ take rr cds = cds ! rr # (drop (Suc rr) cds @ take rr cds)"
  using assms by (simp add: Cons_nth_drop_Suc)

lemma order_rearmed:
  assumes "rr < length cds"
  shows "drop (if Suc rr = length cds then 0 else Suc rr) (cds[rr := P]) @
         take (if Suc rr = length cds then 0 else Suc rr) (cds[rr := P])
           = (drop (Suc rr) cds @ take rr cds) @ [P]"
proof (cases "Suc rr = length cds")
  case True
  then have "cds[rr := P] = take rr cds @ [P]"
    using assms by (simp add: upd_conv_take_nth_drop)
  with True show ?thesis by simp
next
  case False
  then have lt: "Suc rr < length cds" using assms by simp
  have "take (Suc rr) (cds[rr := P]) = take rr cds @ [P]"
    using assms by (simp add: take_Suc_conv_app_nth)
  with False show ?thesis by simp
qed

lemma order_member:
  assumes "rr < length cds" and "r < length cds" and "r \<noteq> rr"
  shows "cds ! r \<in> set (drop (Suc rr) cds @ take rr cds)"
proof (cases "r < rr")
  case True
  then have "take rr cds ! r = cds ! r" "r < length (take rr cds)" using assms by simp_all
  then have "cds ! r \<in> set (take rr cds)" by (metis nth_mem)
  then show ?thesis by simp
next
  case False
  with assms have gt: "Suc rr \<le> r" by simp
  then have "drop (Suc rr) cds ! (r - Suc rr) = cds ! r" "r - Suc rr < length (drop (Suc rr) cds)"
    using assms by simp_all
  then have "cds ! r \<in> set (drop (Suc rr) cds)" by (metis nth_mem)
  then show ?thesis by simp
qed

lemma staggered_dec:
  assumes "sorted_wrt (staggered cfg) ns" and "\<forall>n\<in>set ns. 0 < n"
  shows "sorted_wrt (staggered cfg) (map (\<lambda>n. n - Suc 0) ns)"
proof -
  have "sorted_wrt (\<lambda>x y. staggered cfg (x - Suc 0) (y - Suc 0)) ns"
    using assms(2) by (intro sorted_wrt_mono_rel[OF _ assms(1)]) (auto simp: staggered_def)
  then show ?thesis by (simp add: sorted_wrt_map)
qed

lemma staggered_le_last:
  "sorted_wrt (staggered cfg) ns \<Longrightarrow> x \<in> set ns \<Longrightarrow> x \<le> last ns"
proof (induction ns)
  case Nil
  then show ?case by simp
next
  case (Cons n ns)
  show ?case
  proof (cases "ns = []")
    case True
    with Cons.prems show ?thesis by simp
  next
    case False
    then have "last ns \<in> set ns" by simp
    then have "staggered cfg n (last ns)" using Cons.prems(1) by simp
    then have "n \<le> last ns" by (simp add: staggered_def)
    moreover have "x \<in> set ns \<Longrightarrow> x \<le> last ns" using Cons.IH Cons.prems(1) by simp
    ultimately show ?thesis using Cons.prems(2) False by auto
  qed
qed

lemma sched_tick:
  assumes "sorted_wrt (staggered cfg) (n # ns)" and "staggered cfg (last (n # ns)) (P + n)"
    and "0 < n"
  shows "sorted_wrt (staggered cfg) (map (\<lambda>n. n - Suc 0) (n # ns)) \<and>
         staggered cfg (last (map (\<lambda>n. n - Suc 0) (n # ns)))
           (P + hd (map (\<lambda>n. n - Suc 0) (n # ns)))"
proof -
  have pos: "\<forall>x\<in>set (n # ns). 0 < x" using assms(1,3) by (auto simp: staggered_def)
  have l: "0 < last (n # ns)" using pos by (metis last_in_set list.distinct(1))
  have srt: "sorted_wrt (staggered cfg) (map (\<lambda>n. n - Suc 0) (n # ns))"
    by (rule staggered_dec[OF assms(1) pos])
  have lm: "last (map (\<lambda>n. n - Suc 0) (n # ns)) = last (n # ns) - Suc 0"
    by (rule last_map) simp
  have hm: "hd (map (\<lambda>n. n - Suc 0) (n # ns)) = n - Suc 0" by simp
  have ar: "staggered cfg (last (n # ns) - Suc 0) (P + (n - Suc 0))"
    using l assms(2,3) unfolding staggered_def by arith
  show ?thesis using srt ar by (simp only: lm hm)
qed

lemma sched_fire:
  assumes "sorted_wrt (staggered cfg) (0 # ns)" and "staggered cfg (last (0 # ns)) (P + 0)"
    and "0 < unat (REFRESH_STAGGER cfg)" and "unat (REFRESH_STAGGER cfg) \<le> P"
  shows "sorted_wrt (staggered cfg) (map (\<lambda>n. n - Suc 0) (ns @ [P])) \<and>
         staggered cfg (last (map (\<lambda>n. n - Suc 0) (ns @ [P])))
           (P + hd (map (\<lambda>n. n - Suc 0) (ns @ [P])))"
proof -
  let ?k = "unat (REFRESH_STAGGER cfg)"
  have s: "sorted_wrt (staggered cfg) ns" and far: "\<forall>x\<in>set ns. ?k \<le> x"
    using assms(1) by (auto simp: staggered_def)
  have pos: "\<forall>x\<in>set ns. 0 < x" using far assms(3) by auto
  have below: "\<forall>x\<in>set ns. staggered cfg x P"
  proof
    fix x assume x: "x \<in> set ns"
    then have "x \<le> last (0 # ns)" using staggered_le_last[OF assms(1), of x] by simp
    then show "staggered cfg x P" using assms(2) by (simp add: staggered_def)
  qed
  have Ppos: "0 < P" using assms(3,4) by simp
  have "sorted_wrt (staggered cfg) (ns @ [P])" using s below by (simp add: sorted_wrt_append)
  moreover have "\<forall>x\<in>set (ns @ [P]). 0 < x" using pos Ppos by simp
  ultimately have srt: "sorted_wrt (staggered cfg) (map (\<lambda>n. n - Suc 0) (ns @ [P]))"
    by (rule staggered_dec)
  have lm: "last (map (\<lambda>n. n - Suc 0) (ns @ [P])) = P - Suc 0" by simp
  have hk: "?k \<le> hd (ns @ [P])"
    using far assms(4) by (cases ns) simp_all
  have hm: "hd (map (\<lambda>n. n - Suc 0) (ns @ [P])) = hd (ns @ [P]) - Suc 0"
    by (rule hd_map) simp
  have ar: "staggered cfg (P - Suc 0) (P + (hd (ns @ [P]) - Suc 0))"
    using hk Ppos assms(3) unfolding staggered_def by arith
  show ?thesis using srt ar by (simp only: lm hm)
qed

lemma unat_dec:
  assumes "\<forall>c\<in>set cs. c \<noteq> (0 :: u32)"
  shows "map unat (map (\<lambda>c. c - 1) cs) = map (\<lambda>n. n - Suc 0) (map unat cs)"
  using assms by (induction cs) (simp_all add: unat_minus_one)

lemma refreshOrder_map:
  "refreshOrder rr (map f cds) = map unat (map f (drop rr cds @ take rr cds))"
  by (simp add: refreshOrder_def drop_map take_map)

lemma refreshGate_refresh:
  "refreshRank (refreshGate cfg s) =
     (if refreshCountdown s ! refreshRank s = 0
      then (if refreshRank s + 1 = NUM_RANKS cfg then 0 else refreshRank s + 1)
      else refreshRank s)"
  "refreshCountdown (refreshGate cfg s) =
     (if refreshCountdown s ! refreshRank s = 0
      then (refreshCountdown s)[refreshRank s := REFRESH_PERIOD_cycles cfg]
      else refreshCountdown s)"
  "refreshWaiting (refreshGate cfg s) =
     (if refreshCountdown s ! refreshRank s = 0 \<or>
         (powerDown s ! refreshRank s \<and> refreshCountdown s ! refreshRank s \<le> tXP cfg)
      then (refreshWaiting s)(refreshRank s := True)
      else refreshWaiting s)"
  by (auto simp: refreshGate_def Let_def)

lemma update_refresh:
  assumes "update cfg env s = Inr s'"
  shows "refreshRank s' =
     (if refreshCountdown s ! refreshRank s = 0
      then (if refreshRank s + 1 = NUM_RANKS cfg then 0 else refreshRank s + 1)
      else refreshRank s)"
    and "refreshCountdown s' = map (\<lambda>c. c - 1)
     (if refreshCountdown s ! refreshRank s = 0
      then (refreshCountdown s)[refreshRank s := REFRESH_PERIOD_cycles cfg]
      else refreshCountdown s)"
    and "refreshCountdown s ! refreshRank s = 0 \<or>
         (powerDown s ! refreshRank s \<and> refreshCountdown s ! refreshRank s \<le> tXP cfg)
         \<Longrightarrow> refreshWaiting s' (refreshRank s)"
    and "\<exists>evs. events s' = events s @ evs \<and>
           (refreshCountdown s ! refreshRank s = 0 \<longrightarrow> NeedRefresh (refreshRank s) \<in> set evs)"
proof -
  from assms obtain s2 s3 s4 where
    p: "drainWriteData cfg (advanceDataBus env (advanceCmdBus env (updateBankStates cfg s))) = Inr s2"
    "issuePopped cfg (popped env) (refreshGate cfg s2) = Inr s3"
    "returnPath cfg env (calculatePower cfg env (admitTransaction env s3)) = Inr s4"
    "s' = stepCommandQueue (decrementRefresh s4)"
    by (rule update_phases)
  have pre: "refreshRank s2 = refreshRank s" "refreshCountdown s2 = refreshCountdown s"
    "powerDown s2 = powerDown s"
    using drainWriteData_frame[OF p(1)]
    by (simp_all add: advanceDataBus_frame advanceCmdBus_frame updateBankStates_frame)
  have post: "refreshRank s' = refreshRank (refreshGate cfg s2)"
    "refreshCountdown s' = map (\<lambda>c. c - 1) (refreshCountdown (refreshGate cfg s2))"
    "refreshWaiting s' = refreshWaiting (refreshGate cfg s2)"
    using issuePopped_frame[OF p(2)] returnPath_frame[OF p(3)] p(4)
    by (simp_all add: finish_frame calculatePower_frame admitTransaction_frame)
  show "refreshRank s' =
     (if refreshCountdown s ! refreshRank s = 0
      then (if refreshRank s + 1 = NUM_RANKS cfg then 0 else refreshRank s + 1)
      else refreshRank s)"
    using post(1) pre by (simp add: refreshGate_refresh)
  show "refreshCountdown s' = map (\<lambda>c. c - 1)
     (if refreshCountdown s ! refreshRank s = 0
      then (refreshCountdown s)[refreshRank s := REFRESH_PERIOD_cycles cfg]
      else refreshCountdown s)"
    using post(2) pre by (simp add: refreshGate_refresh)
  show "refreshCountdown s ! refreshRank s = 0 \<or>
         (powerDown s ! refreshRank s \<and> refreshCountdown s ! refreshRank s \<le> tXP cfg)
         \<Longrightarrow> refreshWaiting s' (refreshRank s)"
    using post(3) pre by (simp add: refreshGate_refresh)
  obtain e0 where e0: "events s2 = events s @ e0"
    using advanceCmdBus_events[of env "updateBankStates cfg s"]
      advanceDataBus_events[of env "advanceCmdBus env (updateBankStates cfg s)"]
      drainWriteData_frame(11)[OF p(1)]
    by (auto simp: updateBankStates_frame)
  have e1: "events s3 = events s2 @
      (if refreshCountdown s ! refreshRank s = 0 then [NeedRefresh (refreshRank s)] else [])"
    using issuePopped_frame(10)[OF p(2)] pre by (simp add: refreshGate_events)
  obtain e2 where e2: "events s4 = events s3 @ e2"
    using admitTransaction_events[of env s3]
      calculatePower_events[of cfg env "admitTransaction env s3"]
      returnPath_events(1)[OF p(3)]
    by auto
  have "events s' = events s @ (e0 @
      (if refreshCountdown s ! refreshRank s = 0 then [NeedRefresh (refreshRank s)] else []) @
      e2 @ [CommandQueueStep])"
    using e0 e1 e2 p(4) by (simp add: finish_frame)
  then show "\<exists>evs. events s' = events s @ evs \<and>
           (refreshCountdown s ! refreshRank s = 0 \<longrightarrow> NeedRefresh (refreshRank s) \<in> set evs)"
    by (intro exI[of _ "e0 @
      (if refreshCountdown s ! refreshRank s = 0 then [NeedRefresh (refreshRank s)] else []) @
      e2 @ [CommandQueueStep]"]) simp
qed

lemma schedule_cong:
  "refreshCountdown s' = refreshCountdown s \<Longrightarrow> refreshRank s' = refreshRank s \<Longrightarrow>
   refreshSchedule cfg s' = refreshSchedule cfg s"
  by (simp add: refreshSchedule_def)

lemma schedule_rest:
  assumes "refreshSchedule cfg s"
  shows "\<forall>c\<in>set (drop (Suc (refreshRank s)) (refreshCountdown s)
                  @ take (refreshRank s) (refreshCountdown s)).
           unat (refreshCountdown s ! refreshRank s) + unat (REFRESH_STAGGER cfg) \<le> unat c"
proof -
  let ?rr = "refreshRank s" and ?cds = "refreshCountdown s"
  have rr: "?rr < length ?cds" using assms by (simp add: refreshSchedule_def)
  have "sorted_wrt (staggered cfg)
          (unat (?cds ! ?rr) # map unat (drop (Suc ?rr) ?cds @ take ?rr ?cds))"
    using assms order_head[OF rr] by (simp add: refreshSchedule_def refreshOrder_def)
  then show ?thesis by (auto simp: staggered_def)
qed

lemma near_at_refreshRank:
  assumes "refreshSchedule cfg s" and "r < NUM_RANKS cfg"
    and "unat (refreshCountdown s ! r) < unat (REFRESH_STAGGER cfg)"
  shows "r = refreshRank s"
proof (rule ccontr)
  assume ne: "r \<noteq> refreshRank s"
  have len: "refreshRank s < length (refreshCountdown s)" "r < length (refreshCountdown s)"
    using assms(1,2) by (simp_all add: refreshSchedule_def)
  have "refreshCountdown s ! r \<in> set (drop (Suc (refreshRank s)) (refreshCountdown s)
                  @ take (refreshRank s) (refreshCountdown s))"
    by (rule order_member[OF len ne])
  then have "unat (refreshCountdown s ! refreshRank s) + unat (REFRESH_STAGGER cfg)
               \<le> unat (refreshCountdown s ! r)"
    using schedule_rest[OF assms(1)] by blast
  then show False using assms(3) by simp
qed

lemma refreshConfigOK_facts:
  assumes "refreshConfigOK cfg"
  shows "0 < NUM_RANKS cfg" and "0 < unat (REFRESH_STAGGER cfg)"
    and "NUM_RANKS cfg * unat (REFRESH_STAGGER cfg) \<le> unat (REFRESH_PERIOD_cycles cfg)"
    and "unat (REFRESH_STAGGER cfg) \<le> unat (REFRESH_PERIOD_cycles cfg)"
    and "REFRESH_PERIOD_cycles cfg \<noteq> 0"
proof -
  show N: "0 < NUM_RANKS cfg" and k: "0 < unat (REFRESH_STAGGER cfg)"
    and le: "NUM_RANKS cfg * unat (REFRESH_STAGGER cfg) \<le> unat (REFRESH_PERIOD_cycles cfg)"
    using assms by (simp_all add: refreshConfigOK_def unat_gt_0 word_neq_0_conv)
  have "1 * unat (REFRESH_STAGGER cfg) \<le> NUM_RANKS cfg * unat (REFRESH_STAGGER cfg)"
    using N by (intro mult_le_mono1) simp
  then have "unat (REFRESH_STAGGER cfg) \<le> NUM_RANKS cfg * unat (REFRESH_STAGGER cfg)" by simp
  then show kP: "unat (REFRESH_STAGGER cfg) \<le> unat (REFRESH_PERIOD_cycles cfg)"
    using le by (rule le_trans)
  from k kP have "0 < unat (REFRESH_PERIOD_cycles cfg)" by (rule less_le_trans)
  then show "REFRESH_PERIOD_cycles cfg \<noteq> 0" by (simp add: unat_gt_0)
qed

lemma schedule_update:
  assumes inv: "refreshSchedule cfg s" and ok: "refreshConfigOK cfg"
    and u: "update cfg env s = Inr s'"
  shows "refreshSchedule cfg s'"
proof -
  let ?rr = "refreshRank s" and ?cds = "refreshCountdown s"
  let ?rest = "drop (Suc ?rr) ?cds @ take ?rr ?cds"
  let ?P = "REFRESH_PERIOD_cycles cfg"
  note c = refreshConfigOK_facts[OF ok]
  have len: "length ?cds = NUM_RANKS cfg" and rr: "?rr < length ?cds"
    using inv by (simp_all add: refreshSchedule_def)
  have ord: "refreshOrder ?rr ?cds = unat (?cds ! ?rr) # map unat ?rest"
    using order_head[OF rr] by (simp add: refreshOrder_def)
  have srt: "sorted_wrt (staggered cfg) (unat (?cds ! ?rr) # map unat ?rest)"
    using inv unfolding refreshSchedule_def ord by blast
  have lst: "staggered cfg (last (unat (?cds ! ?rr) # map unat ?rest))
               (unat ?P + unat (?cds ! ?rr))"
    using inv unfolding refreshSchedule_def ord list.sel by blast
  have nz_rest: "\<forall>c\<in>set ?rest. c \<noteq> 0"
  proof
    fix c assume "c \<in> set ?rest"
    then have "unat (?cds ! ?rr) + unat (REFRESH_STAGGER cfg) \<le> unat c"
      using schedule_rest[OF inv] by blast
    then have "0 < unat c" using c(2) by simp
    then show "c \<noteq> 0" by auto
  qed
  show ?thesis
  proof (cases "?cds ! ?rr = 0")
    case True
    let ?rr' = "if Suc ?rr = length ?cds then 0 else Suc ?rr"
    have r': "refreshRank s' = ?rr'"
      using update_refresh(1)[OF u] True len by simp
    have c': "refreshCountdown s' = map (\<lambda>c. c - 1) (?cds[?rr := ?P])"
      using update_refresh(2)[OF u] True by simp
    have nz: "\<forall>c\<in>set (?rest @ [?P]). c \<noteq> 0"
      using nz_rest c(5) by auto
    have "refreshOrder (refreshRank s') (refreshCountdown s')
            = map unat (map (\<lambda>c. c - 1) (?rest @ [?P]))"
      unfolding r' c' refreshOrder_map using order_rearmed[OF rr, of ?P] by simp
    also have "\<dots> = map (\<lambda>n. n - Suc 0) (map unat ?rest @ [unat ?P])"
      using unat_dec[OF nz] by simp
    finally have o': "refreshOrder (refreshRank s') (refreshCountdown s')
            = map (\<lambda>n. n - Suc 0) (map unat ?rest @ [unat ?P])" .
    have z: "unat (?cds ! ?rr) = 0" using True by simp
    have "sorted_wrt (staggered cfg) (0 # map unat ?rest)"
      "staggered cfg (last (0 # map unat ?rest)) (unat ?P + 0)"
      using srt lst unfolding z by blast+
    from sched_fire[OF this c(2) c(4)]
    have "sorted_wrt (staggered cfg) (refreshOrder (refreshRank s') (refreshCountdown s')) \<and>
          staggered cfg (last (refreshOrder (refreshRank s') (refreshCountdown s')))
            (unat ?P + hd (refreshOrder (refreshRank s') (refreshCountdown s')))"
      unfolding o' .
    moreover have "length (refreshCountdown s') = NUM_RANKS cfg" using c' len by simp
    moreover have "refreshRank s' < NUM_RANKS cfg" using r' rr len by auto
    ultimately show ?thesis by (simp add: refreshSchedule_def)
  next
    case False
    have r': "refreshRank s' = ?rr" using update_refresh(1)[OF u] False by simp
    have c': "refreshCountdown s' = map (\<lambda>c. c - 1) ?cds"
      using update_refresh(2)[OF u] False by simp
    have hpos: "0 < unat (?cds ! ?rr)" using False by (simp add: unat_gt_0)
    have "set (drop ?rr ?cds @ take ?rr ?cds) = insert (?cds ! ?rr) (set ?rest)"
      using order_head[OF rr] by (metis list.simps(15))
    then have nz: "\<forall>c\<in>set (drop ?rr ?cds @ take ?rr ?cds). c \<noteq> 0"
      using nz_rest False by simp
    have "refreshOrder (refreshRank s') (refreshCountdown s')
            = map unat (map (\<lambda>c. c - 1) (drop ?rr ?cds @ take ?rr ?cds))"
      unfolding r' c' refreshOrder_map ..
    also have "\<dots> = map (\<lambda>n. n - Suc 0) (unat (?cds ! ?rr) # map unat ?rest)"
      using unat_dec[OF nz] order_head[OF rr] by simp
    finally have o': "refreshOrder (refreshRank s') (refreshCountdown s')
            = map (\<lambda>n. n - Suc 0) (unat (?cds ! ?rr) # map unat ?rest)" .
    from sched_tick[OF srt lst hpos]
    have "sorted_wrt (staggered cfg) (refreshOrder (refreshRank s') (refreshCountdown s')) \<and>
          staggered cfg (last (refreshOrder (refreshRank s') (refreshCountdown s')))
            (unat ?P + hd (refreshOrder (refreshRank s') (refreshCountdown s')))"
      unfolding o' .
    moreover have "length (refreshCountdown s') = NUM_RANKS cfg" using c' len by simp
    moreover have "refreshRank s' < NUM_RANKS cfg" using r' rr len by auto
    ultimately show ?thesis by (simp add: refreshSchedule_def)
  qed
qed

lemma stagger_unat:
  assumes "unat (k :: u32) * m < 2 ^ 32"
  shows "unat (k * of_nat m) = unat k * m"
proof (cases "k = 0")
  case True
  then show ?thesis by simp
next
  case False
  then have "1 \<le> unat k" by (simp add: unat_gt_0 Suc_leI)
  then have "1 * m \<le> unat k * m" by (rule mult_le_mono1)
  then have "m \<le> unat k * m" by simp
  then have m: "m < 2 ^ 32" using assms by (rule le_less_trans)
  have um: "unat (of_nat m :: u32) = m" using m by (simp add: unat_of_nat)
  have "unat k * unat (of_nat m :: u32) < 2 ^ LENGTH(32)" using assms um by simp
  then have "unat (k * of_nat m) = unat k * unat (of_nat m :: u32)"
    by (simp only: unat_mult_lem)
  then show ?thesis using um by simp
qed

lemma schedule_init:
  assumes "refreshConfigOK cfg"
  shows "refreshSchedule cfg (newController cfg b0)"
proof -
  let ?N = "NUM_RANKS cfg" and ?k = "REFRESH_STAGGER cfg" and ?P = "REFRESH_PERIOD_cycles cfg"
  note c = refreshConfigOK_facts[OF assms]
  have N: "0 < ?N" and le: "?N * unat ?k \<le> unat ?P" using c by simp_all
  have P32: "unat ?P < 2 ^ 32" using unsigned_less[of ?P] by simp
  have each: "unat (?k * of_nat (i + 1)) = unat ?k * (i + 1)" if "i < ?N" for i
  proof -
    have "i + 1 \<le> ?N" using that by simp
    then have "unat ?k * (i + 1) \<le> unat ?k * ?N" by (rule mult_le_mono2)
    then have "unat ?k * (i + 1) \<le> ?N * unat ?k" by (simp only: mult.commute)
    then have "unat ?k * (i + 1) \<le> unat ?P" using le by (rule le_trans)
    then have "unat ?k * (i + 1) < 2 ^ 32" using P32 by (rule le_less_trans)
    then show ?thesis by (rule stagger_unat)
  qed
  have ord: "refreshOrder 0 (map (\<lambda>i. ?k * of_nat (i + 1)) [0..<?N])
               = map (\<lambda>i. unat ?k * (i + 1)) [0..<?N]"
    using each by (simp add: refreshOrder_def)
  have step: "staggered cfg (unat ?k * (i + 1)) (unat ?k * (j + 1))" if "i < j" for i j
  proof -
    have "(i + 1) + 1 \<le> j + 1" using that by simp
    then have "unat ?k * ((i + 1) + 1) \<le> unat ?k * (j + 1)" by (rule mult_le_mono2)
    then show ?thesis by (simp add: staggered_def)
  qed
  have "sorted_wrt (\<lambda>i j. staggered cfg (unat ?k * (i + 1)) (unat ?k * (j + 1))) [0..<?N]"
    using step by (intro sorted_wrt_mono_rel[OF _ sorted_wrt_upt]) simp
  then have srt: "sorted_wrt (staggered cfg) (map (\<lambda>i. unat ?k * (i + 1)) [0..<?N])"
    by (simp add: sorted_wrt_map)
  have ne: "[0..<?N] \<noteq> []" using N by simp
  have l1: "last [0..<?N] = ?N - 1" using N by simp
  have l2: "?N - 1 + 1 = ?N" using N by simp
  have lst: "last (map (\<lambda>i. unat ?k * (i + 1)) [0..<?N]) = unat ?k * ?N"
    by (simp only: last_map[OF ne] l1 l2)
  have hd: "hd (map (\<lambda>i. unat ?k * (i + 1)) [0..<?N]) = unat ?k"
    using N by (simp add: hd_map[OF ne])
  have "unat ?k * ?N \<le> unat ?P" using le by (simp only: mult.commute)
  then have fin: "staggered cfg (unat ?k * ?N) (unat ?P + unat ?k)"
    by (simp add: staggered_def)
  have f: "refreshCountdown (newController cfg b0) = map (\<lambda>i. ?k * of_nat (i + 1)) [0..<?N]"
    "refreshRank (newController cfg b0) = 0"
    by (simp_all add: newController_def)
  show ?thesis
    unfolding refreshSchedule_def f ord lst hd
    using srt fin N by simp
qed

lemma reachable_schedule:
  assumes "refreshConfigOK cfg"
  shows "reachable cfg s \<Longrightarrow> refreshSchedule cfg s"
proof (induction rule: reachable.induct)
  case (constructed b0)
  show ?case by (rule schedule_init[OF assms])
next
  case (added s t)
  then show ?case by (simp add: addTransaction_def refreshSchedule_def)
next
  case (updated s env s')
  show ?case by (rule schedule_update[OF updated.IH assms updated.hyps(2)])
next
  case (received s p s')
  then show ?case
    using schedule_cong[OF receiveFromBus_frame(2,3)[OF received.hyps(2)], of cfg] by simp
next
  case (ticked s)
  then show ?case by (simp add: tick_def refreshSchedule_def)
next
  case (stats_reset s)
  then show ?case by (simp add: resetStats_frame refreshSchedule_def)
next
  case (stats_printed s)
  then show ?case by (simp add: printStats_frame refreshSchedule_def)
qed

lemma advanceCmdBus_quiet:
  "\<exists>evs. events (advanceCmdBus env s) = events s @ evs \<and> (\<forall>r. NeedRefresh r \<notin> set evs)"
  by (simp add: advanceCmdBus_def Let_def split: option.splits)

lemma advanceDataBus_quiet:
  "\<exists>evs. events (advanceDataBus env s) = events s @ evs \<and> (\<forall>r. NeedRefresh r \<notin> set evs)"
  by (simp add: advanceDataBus_def Let_def split: option.splits)

lemma admitTransaction_quiet:
  "\<exists>evs. events (admitTransaction env s) = events s @ evs \<and> (\<forall>r. NeedRefresh r \<notin> set evs)"
  by (simp add: admitTransaction_def Let_def split: option.splits prod.splits)

lemma lowPowerRank_quiet:
  "\<exists>evs. events (lowPowerRank cfg env i s) = events s @ evs \<and> (\<forall>r. NeedRefresh r \<notin> set evs)"
  by (simp add: lowPowerRank_def)

lemma calculatePower_quiet:
  "\<exists>evs. events (calculatePower cfg env s) = events s @ evs \<and> (\<forall>r. NeedRefresh r \<notin> set evs)"
proof -
  have "\<exists>evs. events (fold (powerRank cfg env) xs s)
              = events s @ evs \<and> (\<forall>r. NeedRefresh r \<notin> set evs)" for xs
  proof (induction xs arbitrary: s)
    case Nil
    then show ?case by simp
  next
    case (Cons i xs)
    let ?s1 = "powerRank cfg env i s"
    obtain e1 where e1: "events ?s1 = events s @ e1" "\<forall>r. NeedRefresh r \<notin> set e1"
      using lowPowerRank_quiet[of cfg env i s] by (auto simp: powerRank_def backgroundRank_frame)
    obtain e2 where e2:
      "events (fold (powerRank cfg env) xs ?s1) = events ?s1 @ e2" "\<forall>r. NeedRefresh r \<notin> set e2"
      using Cons.IH[of ?s1] by auto
    show ?case using e1 e2 by simp
  qed
  then show ?thesis by (simp add: calculatePower_def)
qed

lemma returnPath_quiet:
  assumes "returnPath cfg env s = Inr s'"
  shows "\<exists>evs. events s' = events s @ evs \<and> (\<forall>r. NeedRefresh r \<notin> set evs)"
  using assms
  by (auto simp: returnPath_def insertHistogram_def Let_def
      split: list.splits option.splits prod.splits)

lemma update_gate:
  assumes "update cfg env s = Inr s'"
  shows "\<exists>evs. events s' = events s @ evs \<and>
           (\<forall>r. NeedRefresh r \<in> set evs \<longleftrightarrow>
                  r = refreshRank s \<and> refreshCountdown s ! refreshRank s = 0)"
    and "outgoingCmdPacket s = None \<and> outgoingDataPacket s = None \<Longrightarrow>
         refreshWaiting s' =
           (if refreshCountdown s ! refreshRank s = 0 \<or>
               (powerDown s ! refreshRank s \<and> refreshCountdown s ! refreshRank s \<le> tXP cfg)
            then (refreshWaiting s)(refreshRank s := True)
            else refreshWaiting s)"
proof -
  from assms obtain s2 s3 s4 where
    p: "drainWriteData cfg (advanceDataBus env (advanceCmdBus env (updateBankStates cfg s))) = Inr s2"
    "issuePopped cfg (popped env) (refreshGate cfg s2) = Inr s3"
    "returnPath cfg env (calculatePower cfg env (admitTransaction env s3)) = Inr s4"
    "s' = stepCommandQueue (decrementRefresh s4)"
    by (rule update_phases)
  let ?sa = "advanceCmdBus env (updateBankStates cfg s)"
  let ?sb = "advanceDataBus env ?sa"
  let ?sc = "admitTransaction env s3"
  let ?sd = "calculatePower cfg env ?sc"
  have pre: "refreshRank s2 = refreshRank s" "refreshCountdown s2 = refreshCountdown s"
    "powerDown s2 = powerDown s"
    using drainWriteData_frame[OF p(1)]
    by (simp_all add: advanceDataBus_frame advanceCmdBus_frame updateBankStates_frame)
  obtain e1 where e1: "events ?sa = events s @ e1" "\<forall>r. NeedRefresh r \<notin> set e1"
    using advanceCmdBus_quiet[of env "updateBankStates cfg s"]
    by (auto simp: updateBankStates_frame)
  obtain e2 where e2: "events ?sb = events ?sa @ e2" "\<forall>r. NeedRefresh r \<notin> set e2"
    using advanceDataBus_quiet[of env ?sa] by auto
  have e3: "events s2 = events ?sb" by (rule drainWriteData_frame(11)[OF p(1)])
  let ?g = "if refreshCountdown s ! refreshRank s = 0 then [NeedRefresh (refreshRank s)] else []"
  have e4: "events s3 = events s2 @ ?g"
    using issuePopped_frame(10)[OF p(2)] pre by (simp add: refreshGate_events)
  obtain e5 where e5: "events ?sc = events s3 @ e5" "\<forall>r. NeedRefresh r \<notin> set e5"
    using admitTransaction_quiet[of env s3] by auto
  obtain e6 where e6: "events ?sd = events ?sc @ e6" "\<forall>r. NeedRefresh r \<notin> set e6"
    using calculatePower_quiet[of cfg env ?sc] by auto
  obtain e7 where e7: "events s4 = events ?sd @ e7" "\<forall>r. NeedRefresh r \<notin> set e7"
    using returnPath_quiet[OF p(3)] by auto
  have ev: "events s' = events s @ (e1 @ e2 @ ?g @ e5 @ e6 @ e7 @ [CommandQueueStep])"
    using e1 e2 e3 e4 e5 e6 e7 p(4) by (simp add: finish_frame)
  have "\<forall>r. NeedRefresh r \<in> set (e1 @ e2 @ ?g @ e5 @ e6 @ e7 @ [CommandQueueStep]) \<longleftrightarrow>
          r = refreshRank s \<and> refreshCountdown s ! refreshRank s = 0"
    using e1(2) e2(2) e5(2) e6(2) e7(2) by auto
  with ev show "\<exists>evs. events s' = events s @ evs \<and>
           (\<forall>r. NeedRefresh r \<in> set evs \<longleftrightarrow>
                  r = refreshRank s \<and> refreshCountdown s ! refreshRank s = 0)"
    by blast
  have post: "refreshWaiting s' = refreshWaiting (refreshGate cfg s2)"
    using issuePopped_frame[OF p(2)] returnPath_frame[OF p(3)] p(4)
    by (simp_all add: finish_frame calculatePower_frame admitTransaction_frame)
  show "refreshWaiting s' =
           (if refreshCountdown s ! refreshRank s = 0 \<or>
               (powerDown s ! refreshRank s \<and> refreshCountdown s ! refreshRank s \<le> tXP cfg)
            then (refreshWaiting s)(refreshRank s := True)
            else refreshWaiting s)"
    if idle: "outgoingCmdPacket s = None \<and> outgoingDataPacket s = None"
  proof -
    have a: "outgoingCmdPacket (updateBankStates cfg s) = None"
      "outgoingDataPacket (updateBankStates cfg s) = None"
      using idle by (simp_all add: updateBankStates_def)
    have "?sa = updateBankStates cfg s" using a(1) by (simp add: advanceCmdBus_def)
    then have "?sb = updateBankStates cfg s" using a(2) by (simp add: advanceDataBus_def)
    then have "refreshWaiting ?sb = refreshWaiting s"
      by (simp add: updateBankStates_frame)
    then have "refreshWaiting s2 = refreshWaiting s"
      using drainWriteData_frame[OF p(1)] by simp
    then show ?thesis using post pre by (simp add: refreshGate_refresh)
  qed
qed


lemma run_reachable:
  "reachable cfg s \<Longrightarrow> run cfg envs s = Inr s' \<Longrightarrow> reachable cfg s'"
proof (induction envs arbitrary: s)
  case Nil
  then show ?case by simp
next
  case (Cons env envs)
  from Cons.prems(2) obtain s1 where
    s1: "update cfg env s = Inr s1" "run cfg envs (tick s1) = Inr s'"
    by (cases "update cfg env s") auto
  have "reachable cfg (tick s1)"
    by (intro reachable.ticked reachable.updated[OF Cons.prems(1) s1(1)])
  then show ?case using Cons.IH s1(2) by blast
qed

text \<open>
  C7, as the code has it. The gate of update looks at the refresh rank only. The update
  calls \<^verbatim>\<open>commandQueue.needRefresh\<close> for a rank exactly when that rank is the refresh
  rank and its countdown is zero; it then sets the rank's \<^verbatim>\<open>refreshWaiting\<close>, re-arms
  its countdown to \<^verbatim>\<open>REFRESH_PERIOD/tCK\<close> at the gate and moves the refresh rank on
  by one, back to 0 after the last rank; every countdown, re-armed or not, is one lower
  (modulo \<open>2^32\<close>) at the end of the update. When the refresh rank is powered down and
  its countdown is at most \<^verbatim>\<open>tXP\<close>, the update sets its \<^verbatim>\<open>refreshWaiting\<close>; with
  no packet on either bus, no other flag changes.

  For every rank \<open>r\<close> this gives what the specification says only in a run from the
  constructor on a configuration whose stagger is at least one cycle: there a countdown
  of zero is the refresh rank's, and, when the stagger is longer than \<^verbatim>\<open>tXP\<close>, so is
  a countdown of at most \<^verbatim>\<open>tXP\<close>.
\<close>

theorem refresh_gate_fires:
  assumes "update cfg env s = Inr s'"
  shows "(\<exists>evs. events s' = events s @ evs \<and>
            (\<forall>q. NeedRefresh q \<in> set evs \<longleftrightarrow>
                   q = refreshRank s \<and> refreshCountdown s ! refreshRank s = 0)) \<and>
     refreshCountdown (refreshGate cfg s) =
       (if refreshCountdown s ! refreshRank s = 0
        then (refreshCountdown s)[refreshRank s := REFRESH_PERIOD_cycles cfg]
        else refreshCountdown s) \<and>
     refreshCountdown s' = map (\<lambda>c. c - 1) (refreshCountdown (refreshGate cfg s)) \<and>
     refreshRank s' =
       (if refreshCountdown s ! refreshRank s = 0
        then (if refreshRank s + 1 = NUM_RANKS cfg then 0 else refreshRank s + 1)
        else refreshRank s) \<and>
     (refreshCountdown s ! refreshRank s = 0 \<or>
      powerDown s ! refreshRank s \<and> refreshCountdown s ! refreshRank s \<le> tXP cfg \<longrightarrow>
        refreshWaiting s' (refreshRank s)) \<and>
     (outgoingCmdPacket s = None \<and> outgoingDataPacket s = None \<longrightarrow>
        (\<forall>q. refreshWaiting s' q \<longleftrightarrow>
           refreshWaiting s q \<or>
           q = refreshRank s \<and>
             (refreshCountdown s ! refreshRank s = 0 \<or>
              powerDown s ! refreshRank s \<and> refreshCountdown s ! refreshRank s \<le> tXP cfg))) \<and>
     (refreshConfigOK cfg \<and> reachable cfg s \<and> r < NUM_RANKS cfg \<longrightarrow>
        (refreshCountdown s ! r = 0 \<longrightarrow>
           refreshRank s = r \<and>
           (\<exists>evs. events s' = events s @ evs \<and> NeedRefresh r \<in> set evs) \<and>
           refreshWaiting s' r \<and>
           refreshCountdown (refreshGate cfg s) ! r = REFRESH_PERIOD_cycles cfg \<and>
           refreshCountdown s' ! r = REFRESH_PERIOD_cycles cfg - 1 \<and>
           refreshRank s' = (r + 1) mod NUM_RANKS cfg) \<and>
        (tXP cfg < REFRESH_STAGGER cfg \<and> powerDown s ! r \<and>
         refreshCountdown s ! r \<le> tXP cfg \<longrightarrow>
           refreshWaiting s' r))"
proof -
  let ?rr = "refreshRank s"
  let ?due = "refreshCountdown s ! ?rr = 0"
  let ?near = "powerDown s ! ?rr \<and> refreshCountdown s ! ?rr \<le> tXP cfg"
  have calls: "\<exists>evs. events s' = events s @ evs \<and>
            (\<forall>q. NeedRefresh q \<in> set evs \<longleftrightarrow> q = ?rr \<and> ?due)"
    by (rule update_gate(1)[OF assms])
  have gate: "refreshCountdown (refreshGate cfg s) =
       (if ?due then (refreshCountdown s)[?rr := REFRESH_PERIOD_cycles cfg]
        else refreshCountdown s)"
    by (simp add: refreshGate_refresh)
  have cd: "refreshCountdown s' = map (\<lambda>c. c - 1) (refreshCountdown (refreshGate cfg s))"
    using update_refresh(2)[OF assms] gate by simp
  have rank: "refreshRank s' =
       (if ?due then (if ?rr + 1 = NUM_RANKS cfg then 0 else ?rr + 1) else ?rr)"
    by (rule update_refresh(1)[OF assms])
  have flag: "?due \<or> ?near \<longrightarrow> refreshWaiting s' ?rr"
    using update_refresh(3)[OF assms] by blast
  have flags: "\<forall>q. refreshWaiting s' q \<longleftrightarrow> refreshWaiting s q \<or> q = ?rr \<and> (?due \<or> ?near)"
    if idle: "outgoingCmdPacket s = None \<and> outgoingDataPacket s = None"
    using update_gate(2)[OF assms idle] by auto
  have fire: "refreshRank s = r \<and>
       (\<exists>evs. events s' = events s @ evs \<and> NeedRefresh r \<in> set evs) \<and>
       refreshWaiting s' r \<and>
       refreshCountdown (refreshGate cfg s) ! r = REFRESH_PERIOD_cycles cfg \<and>
       refreshCountdown s' ! r = REFRESH_PERIOD_cycles cfg - 1 \<and>
       refreshRank s' = (r + 1) mod NUM_RANKS cfg"
    if ok: "refreshConfigOK cfg" "reachable cfg s" "r < NUM_RANKS cfg"
      and z: "refreshCountdown s ! r = 0"
  proof -
    have inv: "refreshSchedule cfg s" by (rule reachable_schedule[OF ok(1,2)])
    note c = refreshConfigOK_facts[OF ok(1)]
    have len: "length (refreshCountdown s) = NUM_RANKS cfg"
      using inv by (simp add: refreshSchedule_def)
    have "unat (refreshCountdown s ! r) < unat (REFRESH_STAGGER cfg)" using z c(2) by simp
    then have rr: "refreshRank s = r" using near_at_refreshRank[OF inv ok(3)] by simp
    have z': "?due" using z rr by simp
    have next_rank: "refreshRank s' = (r + 1) mod NUM_RANKS cfg"
      using rank z' rr ok(3) by auto
    have g: "refreshCountdown (refreshGate cfg s) ! r = REFRESH_PERIOD_cycles cfg"
      using gate z' rr ok(3) len by simp
    have "r < length (refreshCountdown (refreshGate cfg s))"
      using gate len ok(3) by simp
    then have d: "refreshCountdown s' ! r = REFRESH_PERIOD_cycles cfg - 1"
      using cd g by simp
    show ?thesis
      using rr calls flag z' d g next_rank by auto
  qed
  have wake_any: "refreshWaiting s' r"
    if ok: "refreshConfigOK cfg" "reachable cfg s" "r < NUM_RANKS cfg"
      and w: "tXP cfg < REFRESH_STAGGER cfg \<and> powerDown s ! r \<and> refreshCountdown s ! r \<le> tXP cfg"
  proof -
    have inv: "refreshSchedule cfg s" by (rule reachable_schedule[OF ok(1,2)])
    have "unat (refreshCountdown s ! r) < unat (REFRESH_STAGGER cfg)"
      using w by (simp add: word_le_nat_alt word_less_nat_alt)
    then have "refreshRank s = r" using near_at_refreshRank[OF inv ok(3)] by simp
    then show ?thesis using flag w by simp
  qed
  show ?thesis
    using calls gate cd rank flag flags fire wake_any by blast
qed

theorem refresh_gate_fires_witness:
  "refreshCountdown (projr refreshDue) = [0, 2] \<and> refreshRank (projr refreshDue) = 0 \<and>
   \<not> isl (update (refreshExample False) (exampleEnv None) (projr refreshDue)) \<and>
   (\<exists>evs. events (projr (update (refreshExample False) (exampleEnv None) (projr refreshDue)))
             = events (projr refreshDue) @ evs \<and>
           NeedRefresh 0 \<in> set evs \<and> NeedRefresh 1 \<notin> set evs) \<and>
   refreshWaiting (projr (update (refreshExample False) (exampleEnv None) (projr refreshDue))) 0 \<and>
   \<not> refreshWaiting (projr (update (refreshExample False) (exampleEnv None) (projr refreshDue))) 1 \<and>
   refreshCountdown (projr (update (refreshExample False) (exampleEnv None) (projr refreshDue)))
     = [3, 1] \<and>
   refreshRank (projr (update (refreshExample False) (exampleEnv None) (projr refreshDue))) = 1 \<and>
   powerDown (projr poweredDownBeforeRefresh) ! 0 \<and>
   refreshCountdown (projr poweredDownBeforeRefresh) ! 0 = 1 \<and>
   refreshWaiting (projr (update (refreshExample True) (exampleEnv None)
       (projr poweredDownBeforeRefresh))) 0"
proof -
  let ?C = "refreshExample False" and ?L = "refreshExample True"
  let ?u = "update ?C (exampleEnv None) (projr refreshDue)"
  let ?v = "update ?L (exampleEnv None) (projr poweredDownBeforeRefresh)"
  have ok: "refreshConfigOK (refreshExample lp)" for lp
    by (simp add: refreshConfigOK_def refreshExample_def exampleConfig_def)
  have n: "0 < NUM_RANKS (refreshExample lp)" "NUM_RANKS (refreshExample lp) = 2"
    "REFRESH_PERIOD_cycles (refreshExample lp) = 4" "tXP (refreshExample lp) = 1"
    "REFRESH_STAGGER (refreshExample lp) = 2" for lp
    by (simp_all add: refreshExample_def exampleConfig_def)
  have d: "\<not> isl refreshDue" "\<not> isl poweredDownBeforeRefresh" by code_simp+
  have e: "refreshDue = Inr (projr refreshDue)"
    "poweredDownBeforeRefresh = Inr (projr poweredDownBeforeRefresh)"
    using d by simp_all
  have rd: "reachable ?C (projr refreshDue)"
    unfolding refreshDue_def
    by (rule run_reachable[OF reachable.constructed e(1)[unfolded refreshDue_def]])
  have rp: "reachable ?L (projr poweredDownBeforeRefresh)"
    unfolding poweredDownBeforeRefresh_def
    by (rule run_reachable[OF reachable.constructed e(2)[unfolded poweredDownBeforeRefresh_def]])
  have u: "\<not> isl ?u" "\<not> isl ?v" by code_simp+
  then have u': "?u = Inr (projr ?u)" "?v = Inr (projr ?v)" by simp_all
  have f: "refreshCountdown (projr refreshDue) = 0 # 2 # []"
    "refreshRank (projr refreshDue) = 0"
    "outgoingCmdPacket (projr refreshDue) = None"
    "outgoingDataPacket (projr refreshDue) = None"
    "refreshWaiting (projr refreshDue) 1 = False"
    "refreshRank (projr poweredDownBeforeRefresh) = 0"
    "powerDown (projr poweredDownBeforeRefresh) ! 0"
    "refreshCountdown (projr poweredDownBeforeRefresh) ! 0 = 1"
    by code_simp+
  have le: "(1 :: u32) \<le> 1" "(1 :: u32) < 2" by simp_all
  have ok': "refreshConfigOK ?C \<and> reachable ?C (projr refreshDue) \<and> 0 < NUM_RANKS ?C"
    "refreshConfigOK ?L \<and> reachable ?L (projr poweredDownBeforeRefresh) \<and> 0 < NUM_RANKS ?L"
    using ok rd rp n(1) by simp_all
  show ?thesis
    using refresh_gate_fires[OF u'(1), of 0] refresh_gate_fires[OF u'(2), of 0]
      u f le ok'
    by (auto simp add: n)
qed

text \<open>
  Outside these configurations the gate misses ranks. With a stagger of 0 the countdown
  of rank 1 is zero in the first cycle and that of rank 0 in the second, each time while
  the other rank is the refresh rank: \<^verbatim>\<open>needRefresh\<close> is not called for it and its
  countdown wraps to \<open>2^32 - 1\<close>. With \<^verbatim>\<open>tXP = 3\<close> and a stagger
  of 2, the powered-down rank 1 is three cycles from its refresh while rank 0 is the
  refresh rank, and its \<^verbatim>\<open>refreshWaiting\<close> is not set.
\<close>

theorem refresh_gate_counterexample:
  "refreshCountdown (newController staggerZero idleBank) ! 1 = 0 \<and>
   \<not> isl zeroOffTurn \<and>
   NeedRefresh 1 \<notin> set (events (projr zeroOffTurn)) \<and>
   \<not> refreshWaiting (projr zeroOffTurn) 1 \<and>
   refreshCountdown (projr zeroOffTurn) ! 1 = 0xFFFFFFFF \<and>
   refreshCountdown (projr zeroOffTurn) ! 0 = 0 \<and>
   refreshRank (projr zeroOffTurn) = 1 \<and>
   \<not> isl (update staggerZero (exampleEnv None) (projr zeroOffTurn)) \<and>
   events (projr (update staggerZero (exampleEnv None) (projr zeroOffTurn)))
     = events (projr zeroOffTurn) @ [CommandQueueStep] \<and>
   refreshCountdown (projr (update staggerZero (exampleEnv None) (projr zeroOffTurn))) ! 0
     = 0xFFFFFFFF \<and>
   refreshRank (projr (update staggerZero (exampleEnv None) (projr zeroOffTurn))) = 1 \<and>
   \<not> isl poweredDownOffTurn \<and>
   powerDown (projr poweredDownOffTurn) ! 1 \<and>
   refreshCountdown (projr poweredDownOffTurn) ! 1 = 3 \<and> tXP lateWake = 3 \<and>
   refreshRank (projr poweredDownOffTurn) = 0 \<and>
   \<not> isl (update lateWake (exampleEnv None) (projr poweredDownOffTurn)) \<and>
   \<not> refreshWaiting (projr (update lateWake (exampleEnv None) (projr poweredDownOffTurn))) 1"
  by code_simp

end
